theory Spec2Isabelle
  imports Main
begin

section \<open>Function prologue emission (lib/SILGen/SILGenProlog.cpp)\<close>

text \<open>
  A shallow embedding of the prologue emitter. The SIL generator's mutable state
  (the entry block's argument list, the instruction stream of the builder, the cleanup
  stack, the variable-location table, the indirect-return slot) is a record that every
  operation takes and returns. Every \<open>llvm_unreachable\<close>, failed \<open>assert\<close> and read
  of an empty queue is a value of type \<open>error\<close>.
\<close>

subsection \<open>Types, declarations, patterns\<close>

datatype Representation = Thick | Thin | Block

text \<open>Canonical types, as far as the prologue inspects them.\<close>

datatype CanType =
    NominalType string
  | TupleType "CanType list"
  | InOutType CanType
  | FunctionType Representation
  | OptionalType CanType
  | BuiltinUnsafeValueBufferType
  | SILBoxType CanType

datatype SILType = SILType (getSwiftRValueType: CanType) (isAddress: bool)

definition getAddressType :: "SILType \<Rightarrow> SILType" where
  "getAddressType ty = SILType (getSwiftRValueType ty) True"

text \<open>\<open>declId\<close> stands for the identity (the pointer) of the declaration.\<close>

datatype VarDecl =
  VarDecl (declId: nat) (declName: string) (getType: CanType) (isLet: bool) (isSettable: bool)

definition hasName :: "VarDecl \<Rightarrow> bool" where
  "hasName vd = (declName vd \<noteq> [])"

datatype Pattern =
    ParenPattern Pattern
  | TypedPattern CanType Pattern
  | VarPattern Pattern
  | TuplePattern "Pattern list"
  | AnyPattern
  | NamedPattern VarDecl CanType
  | RefutablePattern

datatype ParameterConvention =
    Indirect_In
  | Indirect_Out
  | Indirect_Inout
  | Indirect_In_Guaranteed
  | Direct_Owned
  | Direct_Unowned
  | Direct_Guaranteed
  | Direct_Deallocating

datatype SILParameterInfo =
  SILParameterInfo (getSILType: SILType) (getConvention: ParameterConvention)

text \<open>
  Modelled from the spec: \<open>SILParameterInfo::isIndirectResult\<close> is declared outside this
  file; the indirect-result descriptor is the one whose convention tag is the "out"
  convention.
\<close>

definition isIndirectResult :: "SILParameterInfo \<Rightarrow> bool" where
  "isIndirectResult p = (getConvention p = Indirect_Out)"

datatype CaptureKind = CaptureNone | CaptureConstant | CaptureBox | CaptureStorageAddress

subsection \<open>SIL values, instructions, cleanups\<close>

text \<open>
  A value is named by the instruction (or block argument) that defines it. A block
  argument carries its position in the entry block's argument list.
\<close>

datatype SILValue =
    SILArgument nat SILType VarDecl
  | TupleInst SILType "SILValue list"
  | TupleElementAddrInst SILValue nat SILType
  | CopyBlockInst SILValue
  | CopyValueInst SILValue
  | AllocStackInst nat SILType
  | AllocBoxInst nat SILType

fun valueType :: "SILValue \<Rightarrow> SILType" where
  "valueType (SILArgument i ty d) = ty"
| "valueType (TupleInst ty vs) = ty"
| "valueType (TupleElementAddrInst b i ty) = ty"
| "valueType (CopyBlockInst v) = valueType v"
| "valueType (CopyValueInst v) = valueType v"
| "valueType (AllocStackInst n ty) = getAddressType ty"
| "valueType (AllocBoxInst n ty) = getAddressType ty"

datatype SILInstruction =
    ValueInst SILValue
  | DebugValueInst SILValue
  | DebugValueAddrInst SILValue
  | CopyAddrInst SILValue SILValue bool bool
  | StoreInst SILValue SILValue
  | StrongReleaseInst SILValue
  | RetainValueInst SILValue
  | DestroyValueInst SILValue
  | MoveIntoInst SILValue SILValue
  | CopyIntoInst SILValue SILValue

datatype Cleanup =
    CleanupWriteBackToInOut VarDecl SILValue
  | StrongReleaseCleanup SILValue
  | DestroyValueCleanup SILValue
  | LocalVariableCleanup SILValue

datatype CleanupState = Dormant | Dead | Active

datatype VarLoc = VarLoc (varLocValue: SILValue) (varLocBox: "SILValue option")

datatype ManagedValue =
  ManagedValue (getValue: SILValue) (getCleanup: "nat option") (isLValue: bool)

definition hasCleanup :: "ManagedValue \<Rightarrow> bool" where
  "hasCleanup mv = (getCleanup mv \<noteq> None)"

definition forUnmanaged :: "SILValue \<Rightarrow> ManagedValue" where
  "forUnmanaged v = ManagedValue v None False"

definition forLValue :: "SILValue \<Rightarrow> ManagedValue" where
  "forLValue v = ManagedValue v None True"

datatype error =
    UnreachableOutParameter
  | ParametersExhausted
  | ArgumentTypeMismatch
  | UnnamedAnyPattern
  | PatternNotValidInArgumentBinding
  | AssertNoCleanup
  | AssertHasCleanup
  | NullVarLoc

subsection \<open>The state of one function's lowering\<close>

text \<open>
  \<open>F_parameters\<close> is the parameter list of the function's lowered type; \<open>F_begin\<close> is
  the argument list of its entry block.
\<close>

record SILGenFunction =
  F_parameters :: "SILParameterInfo list"
  F_begin :: "SILValue list"
  B_emitted :: "SILInstruction list"
  Cleanups :: "(Cleanup \<times> CleanupState) list"
  VarLocs :: "VarDecl \<Rightarrow> VarLoc option"
  IndirectReturnAddress :: "SILValue option"
  allocations :: nat

text \<open>
  Modelled from the spec: the Type-Lowering Oracle (4.1) and the capture-kind table are
  external collaborators, not in this file; they are taken as a parameter.
  \<open>isReturnedIndirectly\<close> is what the spec calls an address-only result type.
\<close>

record TypeConverter =
  getLoweredType :: "CanType \<Rightarrow> SILType"
  isLoadable :: "CanType \<Rightarrow> bool"
  isTrivial :: "CanType \<Rightarrow> bool"
  isReturnedIndirectly :: "CanType \<Rightarrow> bool"
  mapTypeIntoContext :: "SILType \<Rightarrow> SILType"
  getDeclCaptureKind :: "VarDecl \<Rightarrow> CaptureKind"

subsection \<open>Collaborators outside this file\<close>

text \<open>
  Modelled from the spec: \<open>new SILArgument(block, type, decl)\<close> materializes one IR
  argument at the end of the entry block's argument list.
\<close>

definition newSILArgument :: "SILType \<Rightarrow> VarDecl \<Rightarrow> SILGenFunction \<Rightarrow> SILValue \<times> SILGenFunction" where
  "newSILArgument ty d gen =
     (let arg = SILArgument (length (F_begin gen)) ty d
      in (arg, gen\<lparr>F_begin := F_begin gen @ [arg]\<rparr>))"

text \<open>Modelled from the spec: the builder appends an instruction to the stream.\<close>

definition emitInst :: "SILInstruction \<Rightarrow> SILGenFunction \<Rightarrow> SILGenFunction" where
  "emitInst i gen = gen\<lparr>B_emitted := B_emitted gen @ [i]\<rparr>"

text \<open>
  Modelled from the spec: the cleanup manager's \<open>pushCleanup\<close> pushes an obligation
  on the cleanup stack, in the given state, and hands back its handle, the record's
  depth in the stack. The top of the stack is the end of the list. An obligation that
  was forwarded is marked dead and stays where it is.
\<close>

definition pushCleanup :: "Cleanup \<Rightarrow> CleanupState \<Rightarrow> SILGenFunction \<Rightarrow> nat \<times> SILGenFunction" where
  "pushCleanup c st gen = (length (Cleanups gen), gen\<lparr>Cleanups := Cleanups gen @ [(c, st)]\<rparr>)"

definition setCleanupState :: "nat \<Rightarrow> CleanupState \<Rightarrow> SILGenFunction \<Rightarrow> SILGenFunction" where
  "setCleanupState h st gen =
     (if h < length (Cleanups gen)
      then gen\<lparr>Cleanups := (Cleanups gen)[h := (fst (Cleanups gen ! h), st)]\<rparr>
      else gen)"

text \<open>Modelled from the spec: \<open>enterDestroyCleanup\<close> registers a destroy cleanup for a value.\<close>

definition enterDestroyCleanup :: "SILValue \<Rightarrow> SILGenFunction \<Rightarrow> nat \<times> SILGenFunction" where
  "enterDestroyCleanup v gen = pushCleanup (DestroyValueCleanup v) Active gen"

text \<open>
  Modelled from the spec: \<open>emitManagedRValueWithCleanup\<close> attaches a release cleanup
  directly on the value (4.2, owned/in). The release cleanup is the destroy cleanup of
  \<open>enterDestroyCleanup\<close>.
\<close>

definition emitManagedRValueWithCleanup :: "SILValue \<Rightarrow> SILGenFunction \<Rightarrow> ManagedValue \<times> SILGenFunction" where
  "emitManagedRValueWithCleanup v gen =
     (let (h, gen') = enterDestroyCleanup v gen in (ManagedValue v (Some h) False, gen'))"

text \<open>
  Modelled from the spec: \<open>emitManagedRetain\<close> attaches a retain and a matching release
  cleanup (4.2, unowned).
\<close>

definition emitManagedRetain :: "SILValue \<Rightarrow> SILGenFunction \<Rightarrow> ManagedValue \<times> SILGenFunction" where
  "emitManagedRetain v gen = emitManagedRValueWithCleanup v (emitInst (RetainValueInst v) gen)"

text \<open>
  Modelled from the spec: \<open>ManagedValue::getUnmanagedValue\<close> reads the value of a
  managed value that carries no cleanup.
\<close>

definition getUnmanagedValue :: "ManagedValue \<Rightarrow> error + SILValue" where
  "getUnmanagedValue mv = (if hasCleanup mv then Inl AssertNoCleanup else Inr (getValue mv))"

text \<open>
  Modelled from the spec: \<open>ManagedValue::forward\<close> moves the value out: the cleanup
  is consumed (dead from then on) and the bare value is handed over.
\<close>

definition forward :: "ManagedValue \<Rightarrow> SILGenFunction \<Rightarrow> error + (SILValue \<times> SILGenFunction)" where
  "forward mv gen =
     (case getCleanup mv of
        None \<Rightarrow> Inl AssertHasCleanup
      | Some h \<Rightarrow> Inr (getValue mv, setCleanupState h Dead gen))"

text \<open>
  Modelled from the spec: \<open>ManagedValue::copyUnmanaged\<close> makes an independent deep copy
  of a value without a cleanup; the copy is fully owned (+1), with its own cleanup.
\<close>

definition copyUnmanaged :: "ManagedValue \<Rightarrow> SILGenFunction \<Rightarrow> ManagedValue \<times> SILGenFunction" where
  "copyUnmanaged mv gen =
     (let v = CopyValueInst (getValue mv)
      in emitManagedRValueWithCleanup v (emitInst (ValueInst v) gen))"

text \<open>
  Modelled from the spec: \<open>ManagedValue::forwardInto\<close> moves the value into a slot,
  consuming its cleanup, with no copy.
\<close>

definition forwardInto :: "ManagedValue \<Rightarrow> SILValue \<Rightarrow> SILGenFunction \<Rightarrow> error + SILGenFunction" where
  "forwardInto mv address gen =
     (case forward mv gen of
        Inl e \<Rightarrow> Inl e
      | Inr (v, gen') \<Rightarrow> Inr (emitInst (MoveIntoInst v address) gen'))"

text \<open>
  Modelled from the spec: \<open>ManagedValue::copyInto\<close> performs an independent deep copy
  into a slot; the source value is left as it was.
\<close>

definition copyInto :: "ManagedValue \<Rightarrow> SILValue \<Rightarrow> SILGenFunction \<Rightarrow> SILGenFunction" where
  "copyInto mv address gen = emitInst (CopyIntoInst (getValue mv) address) gen"

text \<open>Modelled from the spec: \<open>emitTemporaryAllocation\<close> allocates scratch memory of a type.\<close>

definition emitTemporaryAllocation :: "SILType \<Rightarrow> SILGenFunction \<Rightarrow> SILValue \<times> SILGenFunction" where
  "emitTemporaryAllocation ty gen =
     (let addr = AllocStackInst (allocations gen) ty
      in (addr, emitInst (ValueInst addr) (gen\<lparr>allocations := Suc (allocations gen)\<rparr>)))"

text \<open>
  Modelled from the spec: \<open>emitLocalVariableWithCleanup\<close> allocates a fresh local mutable
  slot for a declaration; the slot's own cleanup is pushed dormant. \<open>finishInitialization\<close>
  binds the name to the slot and activates that cleanup.
\<close>

datatype Initialization = Initialization (getAddress: SILValue) (initCleanup: nat)

definition emitLocalVariableWithCleanup ::
  "TypeConverter \<Rightarrow> VarDecl \<Rightarrow> SILGenFunction \<Rightarrow> Initialization \<times> SILGenFunction" where
  "emitLocalVariableWithCleanup tc vd gen =
     (let slot = AllocBoxInst (allocations gen) (getLoweredType tc (getType vd));
          gen1 = emitInst (ValueInst slot) (gen\<lparr>allocations := Suc (allocations gen)\<rparr>);
          (h, gen2) = pushCleanup (LocalVariableCleanup slot) Dormant gen1
      in (Initialization slot h, gen2))"

definition finishInitialization :: "VarDecl \<Rightarrow> Initialization \<Rightarrow> SILGenFunction \<Rightarrow> SILGenFunction" where
  "finishInitialization vd init gen =
     setCleanupState (initCleanup init) Active
       (gen\<lparr>VarLocs := (VarLocs gen)(vd \<mapsto> VarLoc (getAddress init) None)\<rparr>)"

subsection \<open>The cleanups of this file\<close>

text \<open>
  \<open>CleanupWriteBackToInOut::emit\<close> and \<open>StrongReleaseCleanup::emit\<close> are in this file.
  The write-back reads the variable's location at the time the cleanup is emitted.
  Modelled from the spec: the destroy cleanup and the local variable's cleanup emit
  the destruction of their value.
\<close>

fun emitCleanup :: "Cleanup \<Rightarrow> SILGenFunction \<Rightarrow> error + SILGenFunction" where
  "emitCleanup (CleanupWriteBackToInOut var inoutAddr) gen =
     (case VarLocs gen var of
        None \<Rightarrow> Inl NullVarLoc
      | Some l \<Rightarrow> Inr (emitInst (CopyAddrInst (varLocValue l) inoutAddr False False) gen))"
| "emitCleanup (StrongReleaseCleanup box) gen = Inr (emitInst (StrongReleaseInst box) gen)"
| "emitCleanup (DestroyValueCleanup v) gen = Inr (emitInst (DestroyValueInst v) gen)"
| "emitCleanup (LocalVariableCleanup v) gen = Inr (emitInst (DestroyValueInst v) gen)"

text \<open>
  Modelled from the spec: closing a scope runs the obligations pushed since its marker,
  in reverse order of their push, and pops them ("run all down to marker M"). Only
  active obligations are emitted.
\<close>

fun emitCleanups :: "(Cleanup \<times> CleanupState) list \<Rightarrow> SILGenFunction \<Rightarrow> error + SILGenFunction" where
  "emitCleanups [] gen = Inr gen"
| "emitCleanups ((c, st) # cs) gen =
     (if st = Active
      then (case emitCleanup c gen of Inl e \<Rightarrow> Inl e | Inr gen' \<Rightarrow> emitCleanups cs gen')
      else emitCleanups cs gen)"

definition popScope :: "nat \<Rightarrow> SILGenFunction \<Rightarrow> error + SILGenFunction" where
  "popScope depth gen =
     emitCleanups (rev (drop depth (Cleanups gen))) (gen\<lparr>Cleanups := take depth (Cleanups gen)\<rparr>)"

subsection \<open>EmitBBArguments: the argument materializer\<close>

text \<open>
  Builder calls of this file: \<open>createTuple\<close>, \<open>createTupleElementAddr\<close>,
  \<open>createCopyBlock\<close> each emit one instruction and return its value.
\<close>

definition createTuple :: "SILType \<Rightarrow> SILValue list \<Rightarrow> SILGenFunction \<Rightarrow> SILValue \<times> SILGenFunction" where
  "createTuple ty elts gen = (let v = TupleInst ty elts in (v, emitInst (ValueInst v) gen))"

definition createTupleElementAddr ::
  "SILValue \<Rightarrow> nat \<Rightarrow> SILType \<Rightarrow> SILGenFunction \<Rightarrow> SILValue \<times> SILGenFunction" where
  "createTupleElementAddr buffer i ty gen =
     (let v = TupleElementAddrInst buffer i ty in (v, emitInst (ValueInst v) gen))"

definition createCopyBlock :: "SILValue \<Rightarrow> SILGenFunction \<Rightarrow> SILValue \<times> SILGenFunction" where
  "createCopyBlock v gen = (let c = CopyBlockInst v in (c, emitInst (ValueInst c) gen))"

fun getManagedValue ::
  "SILValue \<Rightarrow> CanType \<Rightarrow> SILParameterInfo \<Rightarrow> SILGenFunction \<Rightarrow> error + (ManagedValue \<times> SILGenFunction)" where
  "getManagedValue arg t parameterInfo gen =
     (case getConvention parameterInfo of
        Direct_Deallocating \<Rightarrow> Inr (forUnmanaged arg, gen)
      | Direct_Guaranteed \<Rightarrow> Inr (forUnmanaged arg, gen)
      | Indirect_In_Guaranteed \<Rightarrow> Inr (forUnmanaged arg, gen)
      | Direct_Unowned \<Rightarrow> Inr (emitManagedRetain arg gen)
      | Indirect_Inout \<Rightarrow> Inr (forLValue arg, gen)
      | Direct_Owned \<Rightarrow> Inr (emitManagedRValueWithCleanup arg gen)
      | Indirect_In \<Rightarrow> Inr (emitManagedRValueWithCleanup arg gen)
      | Indirect_Out \<Rightarrow> Inl UnreachableOutParameter)"

fun getAnyOptionalObjectType :: "CanType \<Rightarrow> CanType option" where
  "getAnyOptionalObjectType (OptionalType t) = Some t"
| "getAnyOptionalObjectType t = None"

fun isBlockFunctionType :: "CanType \<Rightarrow> bool" where
  "isBlockFunctionType (FunctionType r) = (r = Block)"
| "isBlockFunctionType t = False"

text \<open>
  The descriptor queue is the \<open>ArrayRef\<close> the visitor holds by reference; it is threaded
  next to the generator's state.
\<close>

type_synonym emitState = "SILParameterInfo list \<times> SILGenFunction"

definition visitType ::
  "TypeConverter \<Rightarrow> bool \<Rightarrow> VarDecl \<Rightarrow> CanType \<Rightarrow> emitState \<Rightarrow> error + (ManagedValue \<times> emitState)" where
  "visitType tc functionArgs d t s =
     (case s of (parameters, gen) \<Rightarrow>
      let argType = getLoweredType tc t in
      case parameters of
        [] \<Rightarrow> Inl ParametersExhausted
      | parameterInfo # rest \<Rightarrow>
          if argType \<noteq> mapTypeIntoContext tc (getSILType parameterInfo)
          then Inl ArgumentTypeMismatch
          else
            (case newSILArgument argType d gen of (arg, gen1) \<Rightarrow>
             case getManagedValue arg t parameterInfo gen1 of
               Inl e \<Rightarrow> Inl e
             | Inr (mv, gen2) \<Rightarrow>
                 let objectType = (case getAnyOptionalObjectType t of
                                     Some theObjTy \<Rightarrow> theObjTy | None \<Rightarrow> t)
                 in if functionArgs \<and> isBlockFunctionType objectType
                    then (case createCopyBlock (getValue mv) gen2 of (blockCopy, gen3) \<Rightarrow>
                          case emitManagedRValueWithCleanup blockCopy gen3 of (mv', gen4) \<Rightarrow>
                            Inr (mv', rest, gen4))
                    else Inr (mv, rest, gen2)))"

text \<open>The two element loops of the loadable branch of \<open>visitTupleType\<close>.\<close>

fun getUnmanagedValues :: "ManagedValue list \<Rightarrow> error + SILValue list" where
  "getUnmanagedValues [] = Inr []"
| "getUnmanagedValues (element # elements) =
     (case getUnmanagedValue element of
        Inl e \<Rightarrow> Inl e
      | Inr v \<Rightarrow> (case getUnmanagedValues elements of Inl e \<Rightarrow> Inl e | Inr vs \<Rightarrow> Inr (v # vs)))"

definition moveOrCopy :: "ManagedValue \<Rightarrow> SILGenFunction \<Rightarrow> error + (SILValue \<times> SILGenFunction)" where
  "moveOrCopy element gen =
     (if hasCleanup element then forward element gen
      else (case copyUnmanaged element gen of (c, gen') \<Rightarrow> forward c gen'))"

fun moveOrCopyElements ::
  "ManagedValue list \<Rightarrow> SILGenFunction \<Rightarrow> error + (SILValue list \<times> SILGenFunction)" where
  "moveOrCopyElements [] gen = Inr ([], gen)"
| "moveOrCopyElements (element # elements) gen =
     (case moveOrCopy element gen of
        Inl e \<Rightarrow> Inl e
      | Inr (v, gen') \<Rightarrow>
          (case moveOrCopyElements elements gen' of
             Inl e \<Rightarrow> Inl e
           | Inr (vs, gen'') \<Rightarrow> Inr (v # vs, gen'')))"

text \<open>The element loop of the address-only branch, from index \<open>i\<close> on.\<close>

fun storeElements ::
  "SILValue \<Rightarrow> nat \<Rightarrow> ManagedValue list \<Rightarrow> SILGenFunction \<Rightarrow> error + SILGenFunction" where
  "storeElements buffer i [] gen = Inr gen"
| "storeElements buffer i (element # elements) gen =
     (case createTupleElementAddr buffer i (getAddressType (valueType (getValue element))) gen of
        (elementBuffer, gen1) \<Rightarrow>
          if hasCleanup element
          then (case forwardInto element elementBuffer gen1 of
                  Inl e \<Rightarrow> Inl e
                | Inr gen2 \<Rightarrow> storeElements buffer (Suc i) elements gen2)
          else storeElements buffer (Suc i) elements (copyInto element elementBuffer gen1))"

text \<open>What \<open>visitTupleType\<close> does once the elements are collected.\<close>

definition aggregateTuple ::
  "TypeConverter \<Rightarrow> CanType \<Rightarrow> bool \<Rightarrow> ManagedValue list \<Rightarrow> SILGenFunction
     \<Rightarrow> error + (ManagedValue \<times> SILGenFunction)" where
  "aggregateTuple tc t canBeGuaranteed elements gen =
     (if isLoadable tc t then
        (if canBeGuaranteed then
           (case getUnmanagedValues elements of
              Inl e \<Rightarrow> Inl e
            | Inr elementValues \<Rightarrow>
                (case createTuple (getLoweredType tc t) elementValues gen of
                   (tupleValue, gen1) \<Rightarrow> Inr (forUnmanaged tupleValue, gen1)))
         else
           (case moveOrCopyElements elements gen of
              Inl e \<Rightarrow> Inl e
            | Inr (elementValues, gen1) \<Rightarrow>
                (case createTuple (getLoweredType tc t) elementValues gen1 of
                   (tupleValue, gen2) \<Rightarrow> Inr (emitManagedRValueWithCleanup tupleValue gen2))))
      else
        (case emitTemporaryAllocation (getLoweredType tc t) gen of
           (buffer, gen1) \<Rightarrow>
             (case storeElements buffer 0 elements gen1 of
                Inl e \<Rightarrow> Inl e
              | Inr gen2 \<Rightarrow> Inr (emitManagedRValueWithCleanup buffer gen2))))"

text \<open>
  \<open>visit\<close> dispatches on the shape of the type: \<open>visitTupleType\<close> for a tuple,
  \<open>visitType\<close> for anything else. \<open>visitElements\<close> is the loop that collects the
  exploded elements, with \<open>canBeGuaranteed\<close> and \<open>elements\<close> as its variables.
\<close>

fun visit ::
  "TypeConverter \<Rightarrow> bool \<Rightarrow> VarDecl \<Rightarrow> CanType \<Rightarrow> emitState \<Rightarrow> error + (ManagedValue \<times> emitState)"
and visitElements ::
  "TypeConverter \<Rightarrow> bool \<Rightarrow> VarDecl \<Rightarrow> CanType list \<Rightarrow> bool \<times> ManagedValue list \<Rightarrow> emitState
     \<Rightarrow> error + ((bool \<times> ManagedValue list) \<times> emitState)" where
  "visit tc functionArgs d (TupleType ts) s =
     (case visitElements tc functionArgs d ts (isLoadable tc (TupleType ts), []) s of
        Inl e \<Rightarrow> Inl e
      | Inr ((canBeGuaranteed, elements), (parameters, gen)) \<Rightarrow>
          (case aggregateTuple tc (TupleType ts) canBeGuaranteed elements gen of
             Inl e \<Rightarrow> Inl e
           | Inr (mv, gen') \<Rightarrow> Inr (mv, parameters, gen')))"
| "visit tc functionArgs d t s = visitType tc functionArgs d t s"
| "visitElements tc functionArgs d [] acc s = Inr (acc, s)"
| "visitElements tc functionArgs d (fieldType # ts) acc s =
     (case visit tc functionArgs d fieldType s of
        Inl e \<Rightarrow> Inl e
      | Inr (elt, s') \<Rightarrow>
          visitElements tc functionArgs d ts
            (if hasCleanup elt then False else fst acc, snd acc @ [elt]) s')"

subsection \<open>ArgumentInitVisitor: binding names to arguments\<close>

text \<open>The constructor: the queue starts as the function's parameters, less a leading out parameter.\<close>

definition ArgumentInitVisitor :: "SILGenFunction \<Rightarrow> SILParameterInfo list" where
  "ArgumentInitVisitor gen =
     (let parameters = F_parameters gen
      in if length parameters \<noteq> 0 \<and> isIndirectResult (parameters ! 0)
         then drop 1 parameters
         else parameters)"

definition makeArgument ::
  "TypeConverter \<Rightarrow> CanType \<Rightarrow> VarDecl \<Rightarrow> emitState \<Rightarrow> error + (ManagedValue \<times> emitState)" where
  "makeArgument tc ty l s = visit tc True l ty s"

definition makeArgumentIntoBinding ::
  "TypeConverter \<Rightarrow> CanType \<Rightarrow> VarDecl \<Rightarrow> emitState \<Rightarrow> error + emitState" where
  "makeArgumentIntoBinding tc ty vd s =
     (case makeArgument tc ty vd s of
        Inl e \<Rightarrow> Inl e
      | Inr (argrv, parameters, gen) \<Rightarrow>
          (case getType vd of
             InOutType objectType \<Rightarrow>
               (case getUnmanagedValue argrv of
                  Inl e \<Rightarrow> Inl e
                | Inr address \<Rightarrow>
                    if objectType = BuiltinUnsafeValueBufferType
                    then Inr (parameters, gen\<lparr>VarLocs := (VarLocs gen)(vd \<mapsto> VarLoc address None)\<rparr>)
                    else
                      (case emitLocalVariableWithCleanup tc vd gen of
                         (initVar, gen1) \<Rightarrow>
                           let gen2 = emitInst (CopyAddrInst address (getAddress initVar) False True) gen1;
                               gen3 = finishInitialization vd initVar gen2
                           in Inr (parameters,
                                   snd (pushCleanup (CleanupWriteBackToInOut vd address) Active gen3))))
           | _ \<Rightarrow>
               if isLet vd
               then
                 (let gen1 = gen\<lparr>VarLocs := (VarLocs gen)(vd \<mapsto> VarLoc (getValue argrv) None)\<rparr>
                  in if isAddress (valueType (getValue argrv))
                     then Inr (parameters, emitInst (DebugValueAddrInst (getValue argrv)) gen1)
                     else Inr (parameters, emitInst (DebugValueInst (getValue argrv)) gen1))
               else
                 (case emitLocalVariableWithCleanup tc vd gen of
                    (initVar, gen1) \<Rightarrow>
                      if hasCleanup argrv
                      then (case forwardInto argrv (getAddress initVar) gen1 of
                              Inl e \<Rightarrow> Inl e
                            | Inr gen2 \<Rightarrow> Inr (parameters, finishInitialization vd initVar gen2))
                      else Inr (parameters,
                                finishInitialization vd initVar
                                  (copyInto argrv (getAddress initVar) gen1)))))"

text \<open>
  \<open>discardScope\<close> is the depth of the cleanup stack when the scope is opened; the scope
  is closed when the block of the \<open>if\<close> is left.
\<close>

definition visitNamedPattern ::
  "TypeConverter \<Rightarrow> VarDecl \<Rightarrow> CanType \<Rightarrow> emitState \<Rightarrow> error + emitState" where
  "visitNamedPattern tc PD ty s =
     (if \<not> hasName PD
      then
        (let discardScope = length (Cleanups (snd s))
         in case makeArgument tc ty PD s of
              Inl e \<Rightarrow> Inl e
            | Inr (mv, parameters, gen) \<Rightarrow>
                (case popScope discardScope gen of
                   Inl e \<Rightarrow> Inl e
                 | Inr gen' \<Rightarrow> Inr (parameters, gen')))
      else makeArgumentIntoBinding tc ty PD s)"

text \<open>
  The pattern visitor. \<open>visitPatterns\<close> is the loop over the elements of a tuple
  pattern; \<open>emitProlog\<close> runs the same loop over the parameter patterns.
\<close>

fun visitPattern :: "TypeConverter \<Rightarrow> Pattern \<Rightarrow> emitState \<Rightarrow> error + emitState"
and visitPatterns :: "TypeConverter \<Rightarrow> Pattern list \<Rightarrow> emitState \<Rightarrow> error + emitState" where
  "visitPattern tc (ParenPattern P) s = visitPattern tc P s"
| "visitPattern tc (TypedPattern ty P) s = visitPattern tc P s"
| "visitPattern tc (VarPattern P) s = visitPattern tc P s"
| "visitPattern tc (TuplePattern Ps) s = visitPatterns tc Ps s"
| "visitPattern tc AnyPattern s = Inl UnnamedAnyPattern"
| "visitPattern tc (NamedPattern PD ty) s = visitNamedPattern tc PD ty s"
| "visitPattern tc RefutablePattern s = Inl PatternNotValidInArgumentBinding"
| "visitPatterns tc [] s = Inr s"
| "visitPatterns tc (P # Ps) s =
     (case visitPattern tc P s of Inl e \<Rightarrow> Inl e | Inr s' \<Rightarrow> visitPatterns tc Ps s')"

subsection \<open>ArgumentForwardVisitor: arguments left destructured\<close>

type_synonym forwardState = "SILValue list \<times> SILGenFunction"

fun forwardMakeArgument :: "TypeConverter \<Rightarrow> CanType \<Rightarrow> VarDecl \<Rightarrow> forwardState \<Rightarrow> forwardState"
and forwardMakeArguments :: "TypeConverter \<Rightarrow> CanType list \<Rightarrow> VarDecl \<Rightarrow> forwardState \<Rightarrow> forwardState" where
  "forwardMakeArgument tc (TupleType ts) varDecl s = forwardMakeArguments tc ts varDecl s"
| "forwardMakeArgument tc ty varDecl s =
     (case newSILArgument (getLoweredType tc ty) varDecl (snd s) of
        (arg, gen') \<Rightarrow> (fst s @ [arg], gen'))"
| "forwardMakeArguments tc [] varDecl s = s"
| "forwardMakeArguments tc (fieldType # ts) varDecl s =
     forwardMakeArguments tc ts varDecl (forwardMakeArgument tc fieldType varDecl s)"

fun forwardVisit :: "TypeConverter \<Rightarrow> Pattern \<Rightarrow> forwardState \<Rightarrow> error + forwardState"
and forwardVisits :: "TypeConverter \<Rightarrow> Pattern list \<Rightarrow> forwardState \<Rightarrow> error + forwardState" where
  "forwardVisit tc (ParenPattern P) s = forwardVisit tc P s"
| "forwardVisit tc (VarPattern P) s = forwardVisit tc P s"
| "forwardVisit tc (TypedPattern ty (NamedPattern NPD nty)) s = Inr (forwardMakeArgument tc ty NPD s)"
| "forwardVisit tc (TypedPattern ty P) s = forwardVisit tc P s"
| "forwardVisit tc (TuplePattern Ps) s = forwardVisits tc Ps s"
| "forwardVisit tc AnyPattern s = Inl UnnamedAnyPattern"
| "forwardVisit tc (NamedPattern PD ty) s = Inr (forwardMakeArgument tc ty PD s)"
| "forwardVisit tc RefutablePattern s = Inl PatternNotValidInArgumentBinding"
| "forwardVisits tc [] s = Inr s"
| "forwardVisits tc (P # Ps) s =
     (case forwardVisit tc P s of Inl e \<Rightarrow> Inl e | Inr s' \<Rightarrow> forwardVisits tc Ps s')"

definition bindParametersForForwarding ::
  "TypeConverter \<Rightarrow> Pattern \<Rightarrow> SILValue list \<Rightarrow> SILGenFunction \<Rightarrow> error + forwardState" where
  "bindParametersForForwarding tc pattern parameters gen = forwardVisit tc pattern (parameters, gen)"

subsection \<open>Capture arguments\<close>

text \<open>
  \<open>getTupleElementType\<close> of a SIL tuple type keeps the category (object or address)
  of the tuple.
\<close>

function (sequential) emitReconstitutedConstantCaptureArguments ::
  "SILType \<Rightarrow> VarDecl \<Rightarrow> SILGenFunction \<Rightarrow> SILValue \<times> SILGenFunction"
and emitReconstitutedElements ::
  "CanType list \<Rightarrow> bool \<Rightarrow> VarDecl \<Rightarrow> SILGenFunction \<Rightarrow> SILValue list \<times> SILGenFunction" where
  "emitReconstitutedConstantCaptureArguments (SILType (TupleType ts) a) capture gen =
     (case emitReconstitutedElements ts a capture gen of
        (Elts, gen') \<Rightarrow> createTuple (SILType (TupleType ts) a) Elts gen')"
| "emitReconstitutedConstantCaptureArguments ty capture gen = newSILArgument ty capture gen"
| "emitReconstitutedElements [] a capture gen = ([], gen)"
| "emitReconstitutedElements (t # ts) a capture gen =
     (case emitReconstitutedConstantCaptureArguments (SILType t a) capture gen of
        (EV, gen1) \<Rightarrow>
          (case emitReconstitutedElements ts a capture gen1 of
             (Elts, gen2) \<Rightarrow> (EV # Elts, gen2)))"
  by pat_completeness auto
termination
  by (relation "measure (\<lambda>x. case x of
         Inl (ty, capture, gen) \<Rightarrow> 2 * size (getSwiftRValueType ty) + 1
       | Inr (ts, a, capture, gen) \<Rightarrow> 2 * size_list size ts)") auto

definition emitCaptureArguments :: "TypeConverter \<Rightarrow> VarDecl \<Rightarrow> SILGenFunction \<Rightarrow> SILGenFunction" where
  "emitCaptureArguments tc VD gen =
     (case getDeclCaptureKind tc VD of
        CaptureNone \<Rightarrow> gen
      | CaptureConstant \<Rightarrow>
          (let ty = getLoweredType tc (getType VD) in
           case emitReconstitutedConstantCaptureArguments ty VD gen of
             (val0, gen1) \<Rightarrow>
               (case (if isSettable VD
                      then (case emitTemporaryAllocation ty gen1 of
                              (addr, gen2) \<Rightarrow> (addr, emitInst (StoreInst val0 addr) gen2))
                      else (val0, gen1)) of
                  (val, gen3) \<Rightarrow>
                    let gen4 = gen3\<lparr>VarLocs := (VarLocs gen3)(VD \<mapsto> VarLoc val None)\<rparr>
                    in if \<not> isTrivial tc (getType VD)
                       then snd (enterDestroyCleanup val gen4)
                       else gen4))
      | CaptureBox \<Rightarrow>
          (let ty = getAddressType (getLoweredType tc (getType VD));
               boxTy = SILType (SILBoxType (getSwiftRValueType ty)) False
           in case newSILArgument boxTy VD gen of
                (box, gen1) \<Rightarrow>
                  (case newSILArgument ty VD gen1 of
                     (addr, gen2) \<Rightarrow>
                       snd (pushCleanup (StrongReleaseCleanup box) Active
                              (gen2\<lparr>VarLocs := (VarLocs gen2)(VD \<mapsto> VarLoc addr (Some box))\<rparr>))))
      | CaptureStorageAddress \<Rightarrow>
          (let ty = getAddressType (getLoweredType tc (getType VD))
           in case newSILArgument ty VD gen of
                (addr, gen1) \<Rightarrow> gen1\<lparr>VarLocs := (VarLocs gen1)(VD \<mapsto> VarLoc addr None)\<rparr>))"

fun emitCaptures :: "TypeConverter \<Rightarrow> VarDecl list \<Rightarrow> SILGenFunction \<Rightarrow> SILGenFunction" where
  "emitCaptures tc [] gen = gen"
| "emitCaptures tc (capture # captures) gen = emitCaptures tc captures (emitCaptureArguments tc capture gen)"

subsection \<open>emitProlog\<close>

text \<open>
  The parameter declaration made for the indirect return: not a \<open>let\<close>, named
  \<open>$return_value\<close>, of the result type. It is a fresh declaration; its identity is
  the parameter \<open>fresh\<close>.
\<close>

definition returnValueDecl :: "nat \<Rightarrow> CanType \<Rightarrow> VarDecl" where
  "returnValueDecl fresh resultType = VarDecl fresh ''$return_value'' resultType False True"

definition emitIndirectReturn :: "TypeConverter \<Rightarrow> nat \<Rightarrow> CanType \<Rightarrow> SILGenFunction \<Rightarrow> SILGenFunction" where
  "emitIndirectReturn tc fresh resultType gen =
     (if isReturnedIndirectly tc resultType
      then (case newSILArgument (getLoweredType tc resultType) (returnValueDecl fresh resultType) gen of
              (arg, gen') \<Rightarrow> gen'\<lparr>IndirectReturnAddress := Some arg\<rparr>)
      else gen)"

text \<open>\<open>emitProlog(paramPatterns, resultType, DeclCtx)\<close>; the visitor's queue is dropped at the end.\<close>

definition emitProlog ::
  "TypeConverter \<Rightarrow> nat \<Rightarrow> Pattern list \<Rightarrow> CanType \<Rightarrow> SILGenFunction \<Rightarrow> error + SILGenFunction" where
  "emitProlog tc fresh paramPatterns resultType gen =
     (let gen1 = emitIndirectReturn tc fresh resultType gen;
          argVisitor = ArgumentInitVisitor gen1
      in case visitPatterns tc (rev paramPatterns) (argVisitor, gen1) of
           Inl e \<Rightarrow> Inl e
         | Inr (parameters, gen2) \<Rightarrow> Inr gen2)"

text \<open>
  \<open>emitProlog(TheClosure, paramPatterns, resultType)\<close>; \<open>captures\<close> stands for the
  lowered local captures of the closure.
\<close>

definition emitPrologClosure ::
  "TypeConverter \<Rightarrow> nat \<Rightarrow> VarDecl list \<Rightarrow> Pattern list \<Rightarrow> CanType \<Rightarrow> SILGenFunction
     \<Rightarrow> error + SILGenFunction" where
  "emitPrologClosure tc fresh captures paramPatterns resultType gen =
     (case emitProlog tc fresh paramPatterns resultType gen of
        Inl e \<Rightarrow> Inl e
      | Inr gen' \<Rightarrow> Inr (emitCaptures tc captures gen'))"

section \<open>Notions used to state the properties\<close>

text \<open>The scalar leaves of a type: its recursive tuple flattening, in order.\<close>

fun flattenTuple :: "CanType \<Rightarrow> CanType list" where
  "flattenTuple (TupleType ts) = concat (map flattenTuple ts)"
| "flattenTuple t = [t]"

text \<open>The block arguments for a list of leaf types, the first at position \<open>n\<close>.\<close>

definition argumentsFor :: "TypeConverter \<Rightarrow> VarDecl \<Rightarrow> nat \<Rightarrow> CanType list \<Rightarrow> SILValue list" where
  "argumentsFor tc d n ls = map (\<lambda>(i, l). SILArgument i (getLoweredType tc l) d) (enumerate n ls)"

text \<open>The cleanups entered by \<open>enterDestroyCleanup\<close>.\<close>

fun isDestroy :: "Cleanup \<Rightarrow> bool" where
  "isDestroy (DestroyValueCleanup v) = True"
| "isDestroy c = False"

text \<open>
  How the cleanup stack may change between two states: it never shrinks, the records
  below depth \<open>L\<close> are untouched, and if all records from \<open>L\<close> up were destroy cleanups
  they still are.
\<close>

definition grows :: "nat \<Rightarrow> SILGenFunction \<Rightarrow> SILGenFunction \<Rightarrow> bool" where
  "grows L g g' =
     (length (Cleanups g) \<le> length (Cleanups g') \<and>
      take L (Cleanups g') = take L (Cleanups g) \<and>
      ((\<forall>c \<in> set (drop L (map fst (Cleanups g))). isDestroy c) \<longrightarrow>
       (\<forall>c \<in> set (drop L (map fst (Cleanups g'))). isDestroy c)))"

text \<open>
  The cleanup of a managed value, when it has one, is an active destroy cleanup of its
  value at or above depth \<open>L\<close>.
\<close>

definition ownsCleanup :: "nat \<Rightarrow> ManagedValue \<Rightarrow> SILGenFunction \<Rightarrow> bool" where
  "ownsCleanup L mv g =
     (case getCleanup mv of
        None \<Rightarrow> True
      | Some h \<Rightarrow> L \<le> h \<and> h < length (Cleanups g) \<and>
                  Cleanups g ! h = (DestroyValueCleanup (getValue mv), Active))"

text \<open>
  The leaves the name-binding visitor materializes for a pattern, in the order of its
  walk: for each named pattern, its declaration with each scalar leaf of its type.
\<close>

fun patternLeaves :: "Pattern \<Rightarrow> (VarDecl \<times> CanType) list" where
  "patternLeaves (ParenPattern P) = patternLeaves P"
| "patternLeaves (TypedPattern ty P) = patternLeaves P"
| "patternLeaves (VarPattern P) = patternLeaves P"
| "patternLeaves (TuplePattern Ps) = concat (map patternLeaves Ps)"
| "patternLeaves AnyPattern = []"
| "patternLeaves (NamedPattern PD ty) = map (Pair PD) (flattenTuple ty)"
| "patternLeaves RefutablePattern = []"

text \<open>The block arguments for a list of leaves, the first at position \<open>n\<close>.\<close>

definition leafArguments :: "TypeConverter \<Rightarrow> nat \<Rightarrow> (VarDecl \<times> CanType) list \<Rightarrow> SILValue list" where
  "leafArguments tc n dls = map (\<lambda>(i, (d, l)). SILArgument i (getLoweredType tc l) d) (enumerate n dls)"

text \<open>The block arguments of a by-value capture: one per leaf type, of the tuple's category.\<close>

definition captureArguments :: "bool \<Rightarrow> VarDecl \<Rightarrow> nat \<Rightarrow> CanType list \<Rightarrow> SILValue list" where
  "captureArguments a capture n ls = map (\<lambda>(i, l). SILArgument i (SILType l a) capture) (enumerate n ls)"

text \<open>
  The leaves the forwarding visitor materializes for a pattern, in the order of its walk.
  A typed pattern around a named pattern contributes the typed pattern's type.
\<close>

fun forwardLeaves :: "Pattern \<Rightarrow> (VarDecl \<times> CanType) list" where
  "forwardLeaves (ParenPattern P) = forwardLeaves P"
| "forwardLeaves (VarPattern P) = forwardLeaves P"
| "forwardLeaves (TypedPattern ty (NamedPattern NPD nty)) = map (Pair NPD) (flattenTuple ty)"
| "forwardLeaves (TypedPattern ty P) = forwardLeaves P"
| "forwardLeaves (TuplePattern Ps) = concat (map forwardLeaves Ps)"
| "forwardLeaves AnyPattern = []"
| "forwardLeaves (NamedPattern PD ty) = map (Pair PD) (flattenTuple ty)"
| "forwardLeaves RefutablePattern = []"

text \<open>A typed pattern directly around a named pattern has the named pattern's type.\<close>

fun typedConsistent :: "Pattern \<Rightarrow> bool" where
  "typedConsistent (ParenPattern P) = typedConsistent P"
| "typedConsistent (VarPattern P) = typedConsistent P"
| "typedConsistent (TypedPattern ty (NamedPattern NPD nty)) = (ty = nty)"
| "typedConsistent (TypedPattern ty P) = typedConsistent P"
| "typedConsistent (TuplePattern Ps) = list_all typedConsistent Ps"
| "typedConsistent P = True"

text \<open>
  Run-time values, to state what a reconstituted capture denotes: a scalar, or a tuple
  of values. \<open>hasShape\<close> says a value has the structure of a type, \<open>flattenValue\<close>
  gives its scalar leaves in order (what the caller passes, one per argument slot), and
  \<open>evalValue\<close> gives the value a SIL value denotes when the entry block's arguments
  hold \<open>env\<close>: a block argument denotes the value at its position, a tuple instruction
  the tuple of what its operands denote.
\<close>

datatype RValue = Scalar nat | Aggregate "RValue list"

fun hasShape :: "CanType \<Rightarrow> RValue \<Rightarrow> bool"
and hasShapes :: "CanType list \<Rightarrow> RValue list \<Rightarrow> bool" where
  "hasShape (TupleType ts) (Aggregate vs) = hasShapes ts vs"
| "hasShape (TupleType ts) (Scalar n) = False"
| "hasShape t (Aggregate vs) = False"
| "hasShape t (Scalar n) = True"
| "hasShapes [] [] = True"
| "hasShapes (t # ts) (v # vs) = (hasShape t v \<and> hasShapes ts vs)"
| "hasShapes ts vs = False"

fun flattenValue :: "RValue \<Rightarrow> RValue list" where
  "flattenValue (Aggregate vs) = concat (map flattenValue vs)"
| "flattenValue (Scalar n) = [Scalar n]"

fun evalValue :: "RValue list \<Rightarrow> SILValue \<Rightarrow> RValue option" where
  "evalValue env (SILArgument i ty d) = (if i < length env then Some (env ! i) else None)"
| "evalValue env (TupleInst ty vs) = map_option Aggregate (those (map (evalValue env) vs))"
| "evalValue env v = None"

text \<open>
  Reading a bound location back: a temporary holds the value last stored into it by
  the emitted instructions; any other location is the value itself.
\<close>

fun storedInto :: "SILValue \<Rightarrow> SILInstruction \<Rightarrow> SILValue option" where
  "storedInto addr (StoreInst v a) = (if a = addr then Some v else None)"
| "storedInto addr i = None"

fun lastStored :: "SILValue \<Rightarrow> SILInstruction list \<Rightarrow> SILValue option" where
  "lastStored addr [] = None"
| "lastStored addr (i # insts) =
     (case lastStored addr insts of
        Some v \<Rightarrow> Some v
      | None \<Rightarrow> storedInto addr i)"

fun readBack :: "RValue list \<Rightarrow> SILInstruction list \<Rightarrow> SILValue \<Rightarrow> RValue option" where
  "readBack env insts (AllocStackInst n ty) =
     (case lastStored (AllocStackInst n ty) insts of
        Some v \<Rightarrow> evalValue env v
      | None \<Rightarrow> None)"
| "readBack env insts v = evalValue env v"

section \<open>Example inputs\<close>

text \<open>
  A type converter under which \<open>Existential\<close> is the one address-only type and
  \<open>Int\<close> the one trivial type, and the empty state of a function not yet lowered.
\<close>

fun exampleLoweredType :: "CanType \<Rightarrow> SILType" where
  "exampleLoweredType (InOutType t) = SILType t True"
| "exampleLoweredType t = SILType t (t = NominalType ''Existential'')"

definition exampleTC :: TypeConverter where
  "exampleTC =
     \<lparr> getLoweredType = exampleLoweredType,
       isLoadable = (\<lambda>t. t \<noteq> NominalType ''Existential''),
       isTrivial = (\<lambda>t. t = NominalType ''Int''),
       isReturnedIndirectly = (\<lambda>t. t = NominalType ''Existential''),
       mapTypeIntoContext = (\<lambda>ty. ty),
       getDeclCaptureKind = (\<lambda>d. CaptureConstant) \<rparr>"

definition emptyGen :: SILGenFunction where
  "emptyGen =
     \<lparr> F_parameters = [], F_begin = [], B_emitted = [], Cleanups = [], VarLocs = (\<lambda>d. None),
       IndirectReturnAddress = None, allocations = 0 \<rparr>"

definition blockDecl :: VarDecl where
  "blockDecl = VarDecl 1 ''callback'' (FunctionType Block) True False"

definition blockArg :: SILValue where
  "blockArg = SILArgument 0 (SILType (FunctionType Block) False) blockDecl"

definition pairDecl :: VarDecl where
  "pairDecl = VarDecl 2 ''p''
     (TupleType [NominalType ''Int'', TupleType [NominalType ''C'', NominalType ''D'']]) True False"

definition nestedDescriptors :: "SILParameterInfo list" where
  "nestedDescriptors =
     [SILParameterInfo (SILType (NominalType ''Int'') False) Direct_Unowned,
      SILParameterInfo (SILType (NominalType ''C'') False) Direct_Owned,
      SILParameterInfo (SILType (NominalType ''D'') False) Direct_Guaranteed,
      SILParameterInfo (SILType (NominalType ''E'') False) Direct_Guaranteed]"

text \<open>Scenario B: one parameter, a pair of an owned and a guaranteed element.\<close>

definition scenarioB_type :: CanType where
  "scenarioB_type = TupleType [NominalType ''C'', NominalType ''D'']"

definition scenarioB_decl :: VarDecl where
  "scenarioB_decl = VarDecl 3 ''pair'' scenarioB_type True False"

definition scenarioB_descriptors :: "SILParameterInfo list" where
  "scenarioB_descriptors =
     [SILParameterInfo (SILType (NominalType ''C'') False) Direct_Owned,
      SILParameterInfo (SILType (NominalType ''D'') False) Direct_Guaranteed]"

text \<open>Scenario A: the same pair with both elements guaranteed.\<close>

definition scenarioA_descriptors :: "SILParameterInfo list" where
  "scenarioA_descriptors =
     [SILParameterInfo (SILType (NominalType ''C'') False) Direct_Guaranteed,
      SILParameterInfo (SILType (NominalType ''D'') False) Direct_Guaranteed]"

definition scenarioB_C :: SILValue where
  "scenarioB_C = SILArgument 0 (SILType (NominalType ''C'') False) scenarioB_decl"

definition scenarioB_D :: SILValue where
  "scenarioB_D = SILArgument 1 (SILType (NominalType ''D'') False) scenarioB_decl"

definition scenarioB_tuple :: SILValue where
  "scenarioB_tuple = TupleInst (SILType scenarioB_type False) [scenarioB_C, CopyValueInst scenarioB_D]"

text \<open>Scenario: an unnamed parameter passed owned.\<close>

definition discardDecl :: VarDecl where
  "discardDecl = VarDecl 4 [] (NominalType ''C'') True False"

definition discardArg :: SILValue where
  "discardArg = SILArgument 0 (SILType (NominalType ''C'') False) discardDecl"

text \<open>Scenario C: one in-out parameter of a trivially copyable scalar type.\<close>

definition inoutDecl :: VarDecl where
  "inoutDecl = VarDecl 5 ''x'' (InOutType (NominalType ''Int'')) False True"

definition inoutArg :: SILValue where
  "inoutArg = SILArgument 0 (SILType (NominalType ''Int'') True) inoutDecl"

definition inoutSlot :: SILValue where
  "inoutSlot = AllocBoxInst 0 (SILType (NominalType ''Int'') True)"

text \<open>A mutable parameter passed owned.\<close>

definition varDecl :: VarDecl where
  "varDecl = VarDecl 6 ''v'' (NominalType ''C'') False True"

definition varArg :: SILValue where
  "varArg = SILArgument 0 (SILType (NominalType ''C'') False) varDecl"

definition varSlot :: SILValue where
  "varSlot = AllocBoxInst 0 (SILType (NominalType ''C'') False)"

text \<open>
  Scenario D: a closure with an address-only result, two curried parameter patterns
  \<open>x\<close> (owned) and \<open>y\<close> (guaranteed), and one captured constant \<open>n\<close>. The lowered
  parameters are the out parameter, then \<open>y\<close>'s, then \<open>x\<close>'s.
\<close>

definition xDecl :: VarDecl where
  "xDecl = VarDecl 7 ''x'' (NominalType ''C'') True False"

definition yDecl :: VarDecl where
  "yDecl = VarDecl 8 ''y'' (NominalType ''D'') True False"


definition scenarioD_gen :: SILGenFunction where
  "scenarioD_gen = emptyGen\<lparr>F_parameters :=
     [SILParameterInfo (SILType (NominalType ''Existential'') True) Indirect_Out,
      SILParameterInfo (SILType (NominalType ''D'') False) Direct_Guaranteed,
      SILParameterInfo (SILType (NominalType ''C'') False) Direct_Owned]\<rparr>"

definition scenarioD_patterns :: "Pattern list" where
  "scenarioD_patterns = [NamedPattern xDecl (NominalType ''C''), NamedPattern yDecl (NominalType ''D'')]"






text \<open>A parameter \<open>(a, (b, c))\<close> written as a typed pattern around a name.\<close>

definition forwardExample :: Pattern where
  "forwardExample =
     TuplePattern
       [TypedPattern (TupleType [NominalType ''C'', TupleType [NominalType ''D'', NominalType ''Int'']])
          (NamedPattern pairDecl (TupleType [NominalType ''C'', TupleType [NominalType ''D'', NominalType ''Int'']])),
        ParenPattern (NamedPattern xDecl (NominalType ''C''))]"

text \<open>A typed pattern of type \<open>(C, D)\<close> directly around a name of type \<open>C\<close>.\<close>

definition forwardMismatch :: Pattern where
  "forwardMismatch =
     TypedPattern (TupleType [NominalType ''C'', NominalType ''D''])
       (NamedPattern xDecl (NominalType ''C''))"

text \<open>A settable captured pair of a non-trivial and a trivial element.\<close>

definition captureDecl :: VarDecl where
  "captureDecl = VarDecl 10 ''c'' (TupleType [NominalType ''C'', NominalType ''Int'']) False True"

definition captureTuple :: SILValue where
  "captureTuple =
     TupleInst (SILType (TupleType [NominalType ''C'', NominalType ''Int'']) False)
       [SILArgument 0 (SILType (NominalType ''C'') False) captureDecl,
        SILArgument 1 (SILType (NominalType ''Int'') False) captureDecl]"

definition captureTemp :: SILValue where
  "captureTemp = AllocStackInst 0 (SILType (TupleType [NominalType ''C'', NominalType ''Int'']) False)"

section \<open>Lemmas\<close>

lemma argumentsFor_Nil [simp]: "argumentsFor tc d n [] = []"
  by (simp add: argumentsFor_def)

lemma argumentsFor_Cons [simp]:
  "argumentsFor tc d n (l # ls) = SILArgument n (getLoweredType tc l) d # argumentsFor tc d (Suc n) ls"
  by (simp add: argumentsFor_def)

lemma argumentsFor_append:
  "argumentsFor tc d n (xs @ ys) = argumentsFor tc d n xs @ argumentsFor tc d (n + length xs) ys"
  by (induction xs arbitrary: n) simp_all

lemma length_argumentsFor [simp]: "length (argumentsFor tc d n ls) = length ls"
  by (simp add: argumentsFor_def)

text \<open>Frame: what the helper operations leave alone.\<close>

lemma moveOrCopyElements_frame:
  "moveOrCopyElements es g = Inr (vs, g') \<Longrightarrow>
     F_begin g' = F_begin g \<and> VarLocs g' = VarLocs g \<and> IndirectReturnAddress g' = IndirectReturnAddress g"
proof (induction es arbitrary: g vs g')
  case Nil
  then show ?case by simp
next
  case (Cons e es)
  then show ?case
    by (fastforce simp: moveOrCopy_def forward_def copyUnmanaged_def emitManagedRValueWithCleanup_def
          enterDestroyCleanup_def pushCleanup_def setCleanupState_def emitInst_def Let_def
          split: sum.splits option.splits if_splits prod.splits)
qed

lemma storeElements_frame:
  "storeElements b i es g = Inr g' \<Longrightarrow>
     F_begin g' = F_begin g \<and> VarLocs g' = VarLocs g \<and> IndirectReturnAddress g' = IndirectReturnAddress g"
proof (induction es arbitrary: g g' i)
  case Nil
  then show ?case by simp
next
  case (Cons e es)
  then show ?case
    by (fastforce simp: forwardInto_def forward_def copyInto_def createTupleElementAddr_def
          setCleanupState_def emitInst_def Let_def
          split: sum.splits option.splits if_splits prod.splits)
qed

lemma aggregateTuple_frame:
  "aggregateTuple tc t cbg es g = Inr (mv, g') \<Longrightarrow>
     F_begin g' = F_begin g \<and> VarLocs g' = VarLocs g \<and> IndirectReturnAddress g' = IndirectReturnAddress g"
  by (auto simp: aggregateTuple_def createTuple_def emitManagedRValueWithCleanup_def
        enterDestroyCleanup_def pushCleanup_def emitInst_def emitTemporaryAllocation_def Let_def
        split: sum.splits if_splits prod.splits
        dest!: moveOrCopyElements_frame storeElements_frame)

lemma visitType_consumes:
  "visitType tc fa d t (ps, g) = Inr (mv, ps', g') \<Longrightarrow>
     (\<exists>p. ps = p # ps' \<and> getLoweredType tc t = mapTypeIntoContext tc (getSILType p)) \<and>
     F_begin g' = F_begin g @ [SILArgument (length (F_begin g)) (getLoweredType tc t) d] \<and>
     VarLocs g' = VarLocs g \<and> IndirectReturnAddress g' = IndirectReturnAddress g"
  by (cases ps; cases "getConvention (hd ps)")
     (auto simp: visitType_def newSILArgument_def forUnmanaged_def forLValue_def emitManagedRetain_def
        createCopyBlock_def emitManagedRValueWithCleanup_def enterDestroyCleanup_def pushCleanup_def
        emitInst_def Let_def
        split: list.splits if_splits sum.splits prod.splits)

lemma visit_consumes_aux:
  "visit tc fa d t s = Inr (mv, s') \<Longrightarrow>
     length (flattenTuple t) \<le> length (fst s) \<and>
     fst s' = drop (length (flattenTuple t)) (fst s) \<and>
     map (\<lambda>p. mapTypeIntoContext tc (getSILType p)) (take (length (flattenTuple t)) (fst s))
       = map (getLoweredType tc) (flattenTuple t) \<and>
     F_begin (snd s') = F_begin (snd s) @ argumentsFor tc d (length (F_begin (snd s))) (flattenTuple t) \<and>
     VarLocs (snd s') = VarLocs (snd s) \<and> IndirectReturnAddress (snd s') = IndirectReturnAddress (snd s)"
  "visitElements tc fa d ts acc s = Inr (acc', s') \<Longrightarrow>
     length (concat (map flattenTuple ts)) \<le> length (fst s) \<and>
     fst s' = drop (length (concat (map flattenTuple ts))) (fst s) \<and>
     map (\<lambda>p. mapTypeIntoContext tc (getSILType p)) (take (length (concat (map flattenTuple ts))) (fst s))
       = map (getLoweredType tc) (concat (map flattenTuple ts)) \<and>
     F_begin (snd s') = F_begin (snd s) @ argumentsFor tc d (length (F_begin (snd s))) (concat (map flattenTuple ts)) \<and>
     VarLocs (snd s') = VarLocs (snd s) \<and> IndirectReturnAddress (snd s') = IndirectReturnAddress (snd s)"
proof (induction tc fa d t s and tc fa d ts acc s arbitrary: mv s' and acc' s'
        rule: visit_visitElements.induct)
  case (1 tc functionArgs d ts s)
  from "1.prems" obtain cbg es ps g where
    ve: "visitElements tc functionArgs d ts (isLoadable tc (TupleType ts), []) s = Inr ((cbg, es), (ps, g))"
    by (auto split: sum.splits)
  with "1.prems" obtain g' where ag: "aggregateTuple tc (TupleType ts) cbg es g = Inr (mv, g')"
    and s': "s' = (ps, g')"
    by (auto split: sum.splits)
  from "1.IH"[OF ve] aggregateTuple_frame[OF ag] s' show ?case by simp
next
  case (4 tc functionArgs d fieldType ts acc s)
  from "4.prems" obtain elt s1 where
    v: "visit tc functionArgs d fieldType s = Inr (elt, s1)"
    and ve: "visitElements tc functionArgs d ts (if hasCleanup elt then False else fst acc, snd acc @ [elt]) s1 = Inr (acc', s')"
    by (auto split: sum.splits)
  note a = "4.IH"(1)[OF v]
  note b = "4.IH"(2)[OF v refl ve]
  let ?n = "length (flattenTuple fieldType)"
  let ?m = "length (concat (map flattenTuple ts))"
  from a b have len: "?n + ?m \<le> length (fst s)" by auto
  have tk: "take (?n + ?m) (fst s) = take ?n (fst s) @ take ?m (drop ?n (fst s))"
    by (simp add: take_add)
  from a b len tk show ?case
    by (simp add: argumentsFor_append add.commute)
qed (auto dest!: visitType_consumes split: prod.splits)

lemma Cleanups_emitInst [simp]: "Cleanups (emitInst i g) = Cleanups g"
  by (simp add: emitInst_def)

lemma Cleanups_setCleanupState [simp]:
  "Cleanups (setCleanupState h st g) = (Cleanups g)[h := (fst (Cleanups g ! h), st)]"
  by (simp add: setCleanupState_def list_update_beyond)

lemma Cleanups_pushCleanup [simp]:
  "Cleanups (snd (pushCleanup c st g)) = Cleanups g @ [(c, st)]"
  "fst (pushCleanup c st g) = length (Cleanups g)"
  by (simp_all add: pushCleanup_def)

lemma map_fst_set_state: "map fst (xs[h := (fst (xs ! h), st)]) = map fst xs"
proof (cases "h < length xs")
  case True
  then show ?thesis by (simp add: map_update list_update_same_conv)
next
  case False
  then show ?thesis by (simp add: list_update_beyond)
qed

lemma grows_refl [simp]: "grows L g g"
  by (simp add: grows_def)

lemma grows_trans: "grows L g g' \<Longrightarrow> grows L g' g'' \<Longrightarrow> grows L g g''"
  by (auto simp: grows_def)

lemma grows_same: "Cleanups g' = Cleanups g \<Longrightarrow> grows L g g'"
  by (simp add: grows_def)

lemma grows_push:
  "L \<le> length (Cleanups g) \<Longrightarrow> Cleanups g' = Cleanups g @ [(DestroyValueCleanup v, st)] \<Longrightarrow> grows L g g'"
  unfolding grows_def by (auto dest: in_set_dropD)

lemma grows_set: "L \<le> h \<Longrightarrow> Cleanups g' = (Cleanups g)[h := (fst (Cleanups g ! h), st)] \<Longrightarrow> grows L g g'"
  by (simp add: grows_def map_fst_set_state)

lemma grows_length: "grows L g g' \<Longrightarrow> length (Cleanups g) \<le> length (Cleanups g')"
  by (simp add: grows_def)

lemma ownsCleanup_grows:
  assumes "ownsCleanup L mv g" and "grows (length (Cleanups g)) g g'"
  shows "ownsCleanup L mv g'"
proof (cases "getCleanup mv")
  case None
  then show ?thesis by (simp add: ownsCleanup_def)
next
  case (Some h)
  with assms(1) have h: "L \<le> h" "h < length (Cleanups g)"
    and e: "Cleanups g ! h = (DestroyValueCleanup (getValue mv), Active)"
    by (simp_all add: ownsCleanup_def)
  from assms(2) have tk: "take (length (Cleanups g)) (Cleanups g') = Cleanups g"
    and len: "length (Cleanups g) \<le> length (Cleanups g')"
    by (simp_all add: grows_def)
  from h(2) have "Cleanups g' ! h = take (length (Cleanups g)) (Cleanups g') ! h"
    by simp
  with tk e have "Cleanups g' ! h = (DestroyValueCleanup (getValue mv), Active)" by simp
  with Some h len show ?thesis by (simp add: ownsCleanup_def)
qed

lemma ownsCleanup_weaken: "ownsCleanup L mv g \<Longrightarrow> L' \<le> L \<Longrightarrow> ownsCleanup L' mv g"
  by (auto simp: ownsCleanup_def split: option.splits)

lemma moveOrCopy_grows:
  assumes "moveOrCopy e g = Inr (v, g')" and "L \<le> length (Cleanups g)"
    and "\<And>h. getCleanup e = Some h \<Longrightarrow> L \<le> h"
  shows "grows L g g'"
proof (cases "getCleanup e")
  case (Some h)
  with assms(1) have "g' = setCleanupState h Dead g"
    by (simp add: moveOrCopy_def hasCleanup_def forward_def)
  with assms(3)[OF Some] show ?thesis by (intro grows_set[of L h]) simp_all
next
  case None
  let ?c = "CopyValueInst (getValue e)"
  let ?g1 = "snd (pushCleanup (DestroyValueCleanup ?c) Active (emitInst (ValueInst ?c) g))"
  from None assms(1) have g': "g' = setCleanupState (length (Cleanups g)) Dead ?g1"
    by (auto simp: moveOrCopy_def hasCleanup_def forward_def copyUnmanaged_def
          emitManagedRValueWithCleanup_def enterDestroyCleanup_def Let_def split_def)
  have 1: "grows L g ?g1" using assms(2) by (intro grows_push) simp_all
  have 2: "grows L ?g1 g'" unfolding g' using assms(2)
    by (intro grows_set[of L "length (Cleanups g)"]) simp_all
  from 1 2 show ?thesis by (rule grows_trans)
qed

lemma moveOrCopyElements_grows:
  "moveOrCopyElements es g = Inr (vs, g') \<Longrightarrow> L \<le> length (Cleanups g) \<Longrightarrow>
   (\<forall>e \<in> set es. \<forall>h. getCleanup e = Some h \<longrightarrow> L \<le> h) \<Longrightarrow> grows L g g'"
proof (induction es arbitrary: g vs g')
  case Nil
  then show ?case by simp
next
  case (Cons e es)
  from Cons.prems(1) obtain v g1 vs1 where
    m: "moveOrCopy e g = Inr (v, g1)" and r: "moveOrCopyElements es g1 = Inr (vs1, g')"
    by (auto split: sum.splits)
  from Cons.prems have 1: "grows L g g1" by (intro moveOrCopy_grows[OF m]) auto
  from 1 Cons.prems(2) have "L \<le> length (Cleanups g1)" by (auto dest: grows_length)
  with Cons.IH[OF r] Cons.prems(3) have "grows L g1 g'" by simp
  with 1 show ?case by (rule grows_trans)
qed

lemma storeElements_grows:
  "storeElements b i es g = Inr g' \<Longrightarrow> L \<le> length (Cleanups g) \<Longrightarrow>
   (\<forall>e \<in> set es. \<forall>h. getCleanup e = Some h \<longrightarrow> L \<le> h) \<Longrightarrow> grows L g g'"
proof (induction es arbitrary: g g' i)
  case Nil
  then show ?case by simp
next
  case (Cons e es)
  let ?eb = "TupleElementAddrInst b i (getAddressType (valueType (getValue e)))"
  let ?g1 = "emitInst (ValueInst ?eb) g"
  show ?case
  proof (cases "getCleanup e")
    case None
    with Cons.prems(1) have r: "storeElements b (Suc i) es (copyInto e ?eb ?g1) = Inr g'"
      by (simp add: createTupleElementAddr_def hasCleanup_def Let_def)
    have "Cleanups (copyInto e ?eb ?g1) = Cleanups g" by (simp add: copyInto_def)
    with Cons.IH[OF r] Cons.prems(2,3) show ?thesis by (simp add: grows_def)
  next
    case (Some h)
    let ?g2 = "emitInst (MoveIntoInst (getValue e) ?eb) (setCleanupState h Dead ?g1)"
    from Some Cons.prems(1) have r: "storeElements b (Suc i) es ?g2 = Inr g'"
      by (simp add: createTupleElementAddr_def hasCleanup_def forwardInto_def forward_def Let_def)
    from Some Cons.prems(3) have "L \<le> h" by simp
    then have 1: "grows L g ?g2" by (intro grows_set[of L h]) simp_all
    from Cons.prems(2) have "L \<le> length (Cleanups ?g2)" by simp
    with Cons.IH[OF r] Cons.prems(3) have "grows L ?g2 g'" by simp
    with 1 show ?thesis by (rule grows_trans)
  qed
qed

lemma ownsCleanup_emitManagedRValueWithCleanup:
  "emitManagedRValueWithCleanup v g = (mv, g') \<Longrightarrow>
     ownsCleanup (length (Cleanups g)) mv g' \<and> (\<forall>L \<le> length (Cleanups g). grows L g g') \<and>
     getValue mv = v \<and> getCleanup mv = Some (length (Cleanups g)) \<and>
     Cleanups g' = Cleanups g @ [(DestroyValueCleanup v, Active)]"
  by (auto simp: emitManagedRValueWithCleanup_def enterDestroyCleanup_def split_def
        ownsCleanup_def intro!: grows_push)

lemma aggregateTuple_cleanups:
  assumes "aggregateTuple tc t cbg es g = Inr (mv, g')" and "L \<le> length (Cleanups g)"
    and "\<forall>e \<in> set es. \<forall>h. getCleanup e = Some h \<longrightarrow> L \<le> h"
  shows "grows L g g' \<and> ownsCleanup L mv g'"
proof (cases "isLoadable tc t")
  case True
  show ?thesis
  proof (cases cbg)
    case True
    with \<open>isLoadable tc t\<close> assms(1) have "Cleanups g' = Cleanups g" "getCleanup mv = None"
      by (auto simp: aggregateTuple_def createTuple_def forUnmanaged_def Let_def
            split: sum.splits)
    then show ?thesis by (simp add: grows_same ownsCleanup_def)
  next
    case False
    with \<open>isLoadable tc t\<close> assms(1) obtain vs g1 where
      m: "moveOrCopyElements es g = Inr (vs, g1)"
      and r: "emitManagedRValueWithCleanup (TupleInst (getLoweredType tc t) vs)
                (emitInst (ValueInst (TupleInst (getLoweredType tc t) vs)) g1) = (mv, g')"
      by (auto simp: aggregateTuple_def createTuple_def Let_def split: sum.splits)
    from moveOrCopyElements_grows[OF m assms(2,3)] have 1: "grows L g g1" .
    with assms(2) have l1: "L \<le> length (Cleanups g1)" by (auto dest: grows_length)
    from ownsCleanup_emitManagedRValueWithCleanup[OF r] l1
    have "grows L g1 g'" "ownsCleanup L mv g'"
      by (auto simp: grows_def intro: ownsCleanup_weaken)
    with 1 show ?thesis by (auto intro: grows_trans)
  qed
next
  case False
  let ?b = "AllocStackInst (allocations g) (getLoweredType tc t)"
  let ?g1 = "emitInst (ValueInst ?b) (g\<lparr>allocations := Suc (allocations g)\<rparr>)"
  from False assms(1) obtain g2 where
    st: "storeElements ?b 0 es ?g1 = Inr g2"
    and r: "emitManagedRValueWithCleanup ?b g2 = (mv, g')"
    by (auto simp: aggregateTuple_def emitTemporaryAllocation_def Let_def split: sum.splits)
  have c1: "Cleanups ?g1 = Cleanups g" by simp
  from storeElements_grows[OF st, of L] assms(2,3) c1 have 1: "grows L g g2"
    by (simp add: grows_def)
  with assms(2) have l1: "L \<le> length (Cleanups g2)" by (auto dest: grows_length)
  from ownsCleanup_emitManagedRValueWithCleanup[OF r] l1
  have "grows L g2 g'" "ownsCleanup L mv g'"
    by (auto intro: ownsCleanup_weaken)
  with 1 show ?thesis by (auto intro: grows_trans)
qed

lemma visitType_cleanups:
  assumes "visitType tc fa d t (ps, g) = Inr (mv, ps', g')"
  shows "(\<forall>L \<le> length (Cleanups g). grows L g g') \<and> ownsCleanup (length (Cleanups g)) mv g'"
  using assms
  by (cases ps; cases "getConvention (hd ps)")
     (auto simp: visitType_def newSILArgument_def forUnmanaged_def forLValue_def emitManagedRetain_def
        createCopyBlock_def emitManagedRValueWithCleanup_def enterDestroyCleanup_def pushCleanup_def
        emitInst_def Let_def ownsCleanup_def grows_def nth_append
        split: if_splits dest: in_set_dropD)

lemma visit_cleanups:
  "visit tc fa d t s = Inr (mv, s') \<Longrightarrow>
     (\<forall>L \<le> length (Cleanups (snd s)). grows L (snd s) (snd s')) \<and>
     ownsCleanup (length (Cleanups (snd s))) mv (snd s')"
  "visitElements tc fa d ts acc s = Inr (acc', s') \<Longrightarrow>
     (\<forall>L \<le> length (Cleanups (snd s)). grows L (snd s) (snd s')) \<and>
     (\<exists>es. snd acc' = snd acc @ es \<and> length es = length ts \<and>
           (\<forall>e \<in> set es. ownsCleanup (length (Cleanups (snd s))) e (snd s')) \<and>
           fst acc' = (fst acc \<and> (\<forall>e \<in> set es. \<not> hasCleanup e)))"
proof (induction tc fa d t s and tc fa d ts acc s arbitrary: mv s' and acc' s'
        rule: visit_visitElements.induct)
  case (1 tc functionArgs d ts s)
  let ?L = "length (Cleanups (snd s))"
  from "1.prems" obtain cbg es ps g where
    ve: "visitElements tc functionArgs d ts (isLoadable tc (TupleType ts), []) s = Inr ((cbg, es), (ps, g))"
    by (auto split: sum.splits)
  with "1.prems" obtain g' where ag: "aggregateTuple tc (TupleType ts) cbg es g = Inr (mv, g')"
    and s': "s' = (ps, g')"
    by (auto split: sum.splits)
  from "1.IH"[OF ve] have gr: "\<forall>L \<le> ?L. grows L (snd s) g"
    and own: "\<forall>e \<in> set es. ownsCleanup ?L e g" by auto
  from gr have len: "?L \<le> length (Cleanups g)" by (auto dest: grows_length)
  have hs: "\<forall>e \<in> set es. \<forall>h. getCleanup e = Some h \<longrightarrow> ?L \<le> h"
    using own by (auto simp: ownsCleanup_def)
  show ?case
  proof (intro conjI allI impI)
    fix L assume L: "L \<le> ?L"
    with len have "L \<le> length (Cleanups g)" by simp
    moreover from hs L have "\<forall>e \<in> set es. \<forall>h. getCleanup e = Some h \<longrightarrow> L \<le> h" by fastforce
    ultimately have "grows L g g'" using aggregateTuple_cleanups[OF ag] by blast
    with gr L show "grows L (snd s) (snd s')" unfolding s' by (auto intro: grows_trans)
  next
    from aggregateTuple_cleanups[OF ag len hs] show "ownsCleanup ?L mv (snd s')"
      unfolding s' by simp
  qed
next
  case (4 tc functionArgs d fieldType ts acc s)
  let ?L = "length (Cleanups (snd s))"
  from "4.prems" obtain elt s1 where
    v: "visit tc functionArgs d fieldType s = Inr (elt, s1)"
    and ve: "visitElements tc functionArgs d ts (if hasCleanup elt then False else fst acc, snd acc @ [elt]) s1 = Inr (acc', s')"
    by (auto split: sum.splits)
  let ?L1 = "length (Cleanups (snd s1))"
  from "4.IH"(1)[OF v] have gr1: "\<forall>L \<le> ?L. grows L (snd s) (snd s1)"
    and own1: "ownsCleanup ?L elt (snd s1)" by auto
  from gr1 have len1: "?L \<le> ?L1" by (auto dest: grows_length)
  from "4.IH"(2)[OF v refl ve] obtain es where
    gr2: "\<forall>L \<le> ?L1. grows L (snd s1) (snd s')"
    and acc': "snd acc' = (snd acc @ [elt]) @ es" "length es = length ts"
    and own2: "\<forall>e \<in> set es. ownsCleanup ?L1 e (snd s')"
    and cbg: "fst acc' = ((if hasCleanup elt then False else fst acc) \<and> (\<forall>e \<in> set es. \<not> hasCleanup e))"
    by auto
  from own1 gr2 have own1': "ownsCleanup ?L elt (snd s')"
    by (auto intro: ownsCleanup_grows)
  from own2 len1 have own2': "\<forall>e \<in> set es. ownsCleanup ?L e (snd s')"
    by (auto intro: ownsCleanup_weaken)
  have "\<forall>L \<le> ?L. grows L (snd s) (snd s')"
    using gr1 gr2 len1 by (auto intro: grows_trans)
  moreover have "snd acc' = snd acc @ (elt # es)" using acc' by simp
  moreover have "length (elt # es) = length (fieldType # ts)" using acc' by simp
  moreover have "\<forall>e \<in> set (elt # es). ownsCleanup ?L e (snd s')" using own1' own2' by simp
  moreover have "fst acc' = (fst acc \<and> (\<forall>e \<in> set (elt # es). \<not> hasCleanup e))"
    using cbg by auto
  ultimately show ?case by blast
qed (auto dest!: visitType_cleanups split: prod.splits)

text \<open>Moving or copying the elements leaves every element cleanup and every copy's cleanup dead.\<close>

lemma moveOrCopy_effect:
  assumes "moveOrCopy e g = Inr (v, g')"
  shows "v = (if hasCleanup e then getValue e else CopyValueInst (getValue e))"
    and "length (Cleanups g) \<le> length (Cleanups g')"
    and "\<forall>i < length (Cleanups g). snd (Cleanups g ! i) = Dead \<longrightarrow> snd (Cleanups g' ! i) = Dead"
    and "\<forall>h. getCleanup e = Some h \<longrightarrow> h < length (Cleanups g) \<longrightarrow> snd (Cleanups g' ! h) = Dead"
    and "\<forall>i. length (Cleanups g) \<le> i \<and> i < length (Cleanups g') \<longrightarrow> snd (Cleanups g' ! i) = Dead"
    and "B_emitted g' = B_emitted g @ (if hasCleanup e then [] else [ValueInst (CopyValueInst (getValue e))])"
  using assms
  by (auto simp: moveOrCopy_def hasCleanup_def forward_def copyUnmanaged_def
        emitManagedRValueWithCleanup_def enterDestroyCleanup_def pushCleanup_def
        setCleanupState_def emitInst_def Let_def nth_list_update nth_append
        split: option.splits if_splits)

lemma moveOrCopyElements_dead_stable:
  "moveOrCopyElements es g = Inr (vs, g') \<Longrightarrow>
     length (Cleanups g) \<le> length (Cleanups g') \<and>
     (\<forall>i < length (Cleanups g). snd (Cleanups g ! i) = Dead \<longrightarrow> snd (Cleanups g' ! i) = Dead) \<and>
     set (B_emitted g) \<subseteq> set (B_emitted g')"
proof (induction es arbitrary: g vs g')
  case Nil
  then show ?case by simp
next
  case (Cons e es)
  from Cons.prems(1) obtain v g1 vs1 where
    m: "moveOrCopy e g = Inr (v, g1)" and r: "moveOrCopyElements es g1 = Inr (vs1, g')"
    by (auto split: sum.splits)
  from moveOrCopy_effect(2,3,6)[OF m] Cons.IH[OF r] show ?case
    by (auto split: if_splits)
qed

lemma moveOrCopyElements_effect:
  "moveOrCopyElements es g = Inr (vs, g') \<Longrightarrow>
   (\<forall>e \<in> set es. \<forall>h. getCleanup e = Some h \<longrightarrow> h < length (Cleanups g)) \<Longrightarrow>
     vs = map (\<lambda>e. if hasCleanup e then getValue e else CopyValueInst (getValue e)) es \<and>
     (\<forall>e \<in> set es. \<forall>h. getCleanup e = Some h \<longrightarrow> snd (Cleanups g' ! h) = Dead) \<and>
     (\<forall>i. length (Cleanups g) \<le> i \<and> i < length (Cleanups g') \<longrightarrow> snd (Cleanups g' ! i) = Dead) \<and>
     (\<forall>e \<in> set es. \<not> hasCleanup e \<longrightarrow> ValueInst (CopyValueInst (getValue e)) \<in> set (B_emitted g'))"
proof (induction es arbitrary: g vs g')
  case Nil
  then show ?case by auto
next
  case (Cons e es)
  from Cons.prems(1) obtain v g1 vs1 where
    m: "moveOrCopy e g = Inr (v, g1)" and r: "moveOrCopyElements es g1 = Inr (vs1, g')"
    and vs: "vs = v # vs1"
    by (auto split: sum.splits)
  note eff = moveOrCopy_effect[OF m]
  note st = moveOrCopyElements_dead_stable[OF r]
  from eff(2) Cons.prems(2)
  have hs: "\<forall>e \<in> set es. \<forall>h. getCleanup e = Some h \<longrightarrow> h < length (Cleanups g1)"
    by fastforce
  note ih = Cons.IH[OF r hs]
  have a: "vs = map (\<lambda>e. if hasCleanup e then getValue e else CopyValueInst (getValue e)) (e # es)"
    using vs eff(1) ih by simp
  have b: "\<forall>x \<in> set (e # es). \<forall>h. getCleanup x = Some h \<longrightarrow> snd (Cleanups g' ! h) = Dead"
  proof (intro ballI allI impI)
    fix x h assume x: "x \<in> set (e # es)" and h: "getCleanup x = Some h"
    show "snd (Cleanups g' ! h) = Dead"
    proof (cases "x = e")
      case True
      with h Cons.prems(2) have hl: "h < length (Cleanups g)" by simp
      with eff(4) True h have "snd (Cleanups g1 ! h) = Dead" by simp
      moreover from hl eff(2) have "h < length (Cleanups g1)" by simp
      ultimately show ?thesis using st by blast
    next
      case False
      with x h ih show ?thesis by auto
    qed
  qed
  have c: "\<forall>i. length (Cleanups g) \<le> i \<and> i < length (Cleanups g') \<longrightarrow> snd (Cleanups g' ! i) = Dead"
  proof (intro allI impI)
    fix i assume i: "length (Cleanups g) \<le> i \<and> i < length (Cleanups g')"
    show "snd (Cleanups g' ! i) = Dead"
    proof (cases "i < length (Cleanups g1)")
      case True
      with i eff(5) have "snd (Cleanups g1 ! i) = Dead" by simp
      with True st show ?thesis by blast
    next
      case False
      with i ih show ?thesis by simp
    qed
  qed
  have d: "\<forall>x \<in> set (e # es). \<not> hasCleanup x \<longrightarrow> ValueInst (CopyValueInst (getValue x)) \<in> set (B_emitted g')"
  proof (intro ballI impI)
    fix x assume x: "x \<in> set (e # es)" and nc: "\<not> hasCleanup x"
    show "ValueInst (CopyValueInst (getValue x)) \<in> set (B_emitted g')"
    proof (cases "x = e")
      case True
      with nc eff(6) have "ValueInst (CopyValueInst (getValue x)) \<in> set (B_emitted g1)" by simp
      with st show ?thesis by blast
    next
      case False
      with x nc ih show ?thesis by auto
    qed
  qed
  from a b c d show ?case by blast
qed

lemmas helper_defs =
  visitType_def newSILArgument_def forUnmanaged_def forLValue_def emitManagedRetain_def
  createCopyBlock_def emitManagedRValueWithCleanup_def enterDestroyCleanup_def pushCleanup_def
  emitInst_def Let_def makeArgument_def aggregateTuple_def createTuple_def moveOrCopy_def
  forward_def copyUnmanaged_def setCleanupState_def hasCleanup_def getUnmanagedValue_def
  emitTemporaryAllocation_def createTupleElementAddr_def forwardInto_def copyInto_def
  emitLocalVariableWithCleanup_def finishInitialization_def

lemmas example_defs =
  exampleTC_def emptyGen_def

lemmas scenarioB_defs =
  scenarioB_type_def scenarioB_decl_def scenarioB_descriptors_def scenarioB_C_def scenarioB_D_def
  scenarioB_tuple_def

lemma getUnmanagedValues_unmanaged:
  "\<forall>e \<in> set es. \<not> hasCleanup e \<Longrightarrow> getUnmanagedValues es = Inr (map getValue es)"
  by (induction es) (simp_all add: getUnmanagedValue_def)

lemma moveOrCopy_returns: "\<exists>v g'. moveOrCopy e g = Inr (v, g')"
  by (cases "getCleanup e")
     (simp_all add: moveOrCopy_def hasCleanup_def forward_def copyUnmanaged_def
        emitManagedRValueWithCleanup_def enterDestroyCleanup_def pushCleanup_def Let_def)

lemma moveOrCopyElements_returns: "\<exists>vs g'. moveOrCopyElements es g = Inr (vs, g')"
proof (induction es arbitrary: g)
  case Nil
  then show ?case by simp
next
  case (Cons e es)
  from moveOrCopy_returns[of e g] obtain v g1 where m: "moveOrCopy e g = Inr (v, g1)" by blast
  from Cons.IH[of g1] obtain vs g2 where r: "moveOrCopyElements es g1 = Inr (vs, g2)" by blast
  from m r show ?case by simp
qed

lemma aggregateTuple_loadable_returns:
  assumes "isLoadable tc t" and "cbg = (\<forall>e \<in> set es. \<not> hasCleanup e)"
  shows "\<exists>mv g'. aggregateTuple tc t cbg es g = Inr (mv, g')"
proof (cases cbg)
  case True
  with assms(2) have "getUnmanagedValues es = Inr (map getValue es)"
    by (intro getUnmanagedValues_unmanaged) simp
  with True assms(1) show ?thesis
    by (simp add: aggregateTuple_def createTuple_def Let_def)
next
  case False
  from moveOrCopyElements_returns[of es g] obtain vs g1 where
    "moveOrCopyElements es g = Inr (vs, g1)" by blast
  with False assms(1) show ?thesis
    by (simp add: aggregateTuple_def createTuple_def emitManagedRValueWithCleanup_def
          enterDestroyCleanup_def pushCleanup_def Let_def)
qed


lemma emitCleanups_destroy:
  "\<forall>x \<in> set cs. isDestroy (fst x) \<Longrightarrow>
     \<exists>new. emitCleanups cs g = Inr (g\<lparr>B_emitted := B_emitted g @ new\<rparr>) \<and>
           (\<forall>x \<in> set cs. snd x = Active \<longrightarrow>
              (\<exists>v. fst x = DestroyValueCleanup v \<and> DestroyValueInst v \<in> set new))"
proof (induction cs arbitrary: g)
  case Nil
  show ?case by (intro exI[of _ "[]"]) simp
next
  case (Cons x cs)
  obtain c st where x: "x = (c, st)" by (cases x)
  from Cons.prems x obtain v where c: "c = DestroyValueCleanup v" by (cases c) auto
  from Cons.prems have rest: "\<forall>x \<in> set cs. isDestroy (fst x)" by simp
  show ?case
  proof (cases "st = Active")
    case True
    from Cons.IH[OF rest, of "emitInst (DestroyValueInst v) g"] obtain new where
      e: "emitCleanups cs (emitInst (DestroyValueInst v) g)
            = Inr (emitInst (DestroyValueInst v) g\<lparr>B_emitted := B_emitted (emitInst (DestroyValueInst v) g) @ new\<rparr>)"
      and n: "\<forall>x \<in> set cs. snd x = Active \<longrightarrow>
              (\<exists>v. fst x = DestroyValueCleanup v \<and> DestroyValueInst v \<in> set new)"
      by blast
    from e x c True have "emitCleanups (x # cs) g = Inr (g\<lparr>B_emitted := B_emitted g @ (DestroyValueInst v # new)\<rparr>)"
      by (simp add: emitInst_def)
    moreover from n x c have "\<forall>y \<in> set (x # cs). snd y = Active \<longrightarrow>
              (\<exists>w. fst y = DestroyValueCleanup w \<and> DestroyValueInst w \<in> set (DestroyValueInst v # new))"
      by auto
    ultimately show ?thesis by blast
  next
    case False
    from Cons.IH[OF rest, of g] obtain new where
      e: "emitCleanups cs g = Inr (g\<lparr>B_emitted := B_emitted g @ new\<rparr>)"
      and n: "\<forall>x \<in> set cs. snd x = Active \<longrightarrow>
              (\<exists>v. fst x = DestroyValueCleanup v \<and> DestroyValueInst v \<in> set new)"
      by blast
    from e x False have "emitCleanups (x # cs) g = Inr (g\<lparr>B_emitted := B_emitted g @ new\<rparr>)"
      by simp
    moreover from n x False have "\<forall>y \<in> set (x # cs). snd y = Active \<longrightarrow>
              (\<exists>w. fst y = DestroyValueCleanup w \<and> DestroyValueInst w \<in> set new)"
      by auto
    ultimately show ?thesis by blast
  qed
qed

lemma makeArgument_stack:
  assumes "makeArgument tc ty d (parameters, gen) = Inr (mv, parameters', gen1)"
  shows "take (length (Cleanups gen)) (Cleanups gen1) = Cleanups gen"
    and "length (Cleanups gen) \<le> length (Cleanups gen1)"
    and "\<forall>x \<in> set (drop (length (Cleanups gen)) (Cleanups gen1)). isDestroy (fst x)"
    and "ownsCleanup (length (Cleanups gen)) mv gen1"
    and "VarLocs gen1 = VarLocs gen"
    and "IndirectReturnAddress gen1 = IndirectReturnAddress gen"
proof -
  from assms have v: "visit tc True d ty (parameters, gen) = Inr (mv, parameters', gen1)"
    by (simp add: makeArgument_def)
  from visit_cleanups(1)[OF v] have gr: "grows (length (Cleanups gen)) gen gen1"
    and own: "ownsCleanup (length (Cleanups gen)) mv gen1" by auto
  from gr show "take (length (Cleanups gen)) (Cleanups gen1) = Cleanups gen"
    and "length (Cleanups gen) \<le> length (Cleanups gen1)"
    by (simp_all add: grows_def)
  from gr have "\<forall>c \<in> set (drop (length (Cleanups gen)) (map fst (Cleanups gen1))). isDestroy c"
    by (simp add: grows_def)
  then show "\<forall>x \<in> set (drop (length (Cleanups gen)) (Cleanups gen1)). isDestroy (fst x)"
    by (simp add: drop_map)
  from own show "ownsCleanup (length (Cleanups gen)) mv gen1" .
  from visit_consumes_aux(1)[OF v] show "VarLocs gen1 = VarLocs gen"
    and "IndirectReturnAddress gen1 = IndirectReturnAddress gen" by simp_all
qed

lemma leafArguments_Nil [simp]: "leafArguments tc n [] = []"
  by (simp add: leafArguments_def)

lemma leafArguments_Cons [simp]:
  "leafArguments tc n ((d, l) # dls) = SILArgument n (getLoweredType tc l) d # leafArguments tc (Suc n) dls"
  by (simp add: leafArguments_def)

lemma leafArguments_append:
  "leafArguments tc n (xs @ ys) = leafArguments tc n xs @ leafArguments tc (n + length xs) ys"
  by (induction xs arbitrary: n) auto

lemma length_leafArguments [simp]: "length (leafArguments tc n dls) = length dls"
  by (simp add: leafArguments_def)

lemma leafArguments_Pair: "leafArguments tc n (map (Pair d) ls) = argumentsFor tc d n ls"
  by (induction ls arbitrary: n) simp_all

text \<open>Errors of the helper loops: never the out-parameter one.\<close>

lemma getUnmanagedValues_error: "getUnmanagedValues es = Inl e \<Longrightarrow> e = AssertNoCleanup"
  by (induction es arbitrary: e) (auto simp: getUnmanagedValue_def split: if_splits sum.splits)

lemma moveOrCopyElements_error: "moveOrCopyElements es g = Inl e \<Longrightarrow> e = AssertHasCleanup"
  by (induction es arbitrary: g e)
     (auto simp: moveOrCopy_def forward_def copyUnmanaged_def emitManagedRValueWithCleanup_def
        enterDestroyCleanup_def pushCleanup_def Let_def
        split: if_splits sum.splits option.splits prod.splits)

lemma storeElements_error: "storeElements b i es g = Inl e \<Longrightarrow> e = AssertHasCleanup"
  by (induction es arbitrary: g e i)
     (auto simp: forwardInto_def forward_def createTupleElementAddr_def Let_def
        split: if_splits sum.splits option.splits prod.splits)

lemma aggregateTuple_error:
  "aggregateTuple tc t cbg es g = Inl e \<Longrightarrow> e = AssertNoCleanup \<or> e = AssertHasCleanup"
  by (auto simp: aggregateTuple_def createTuple_def emitTemporaryAllocation_def Let_def
        split: if_splits sum.splits prod.splits
        dest: getUnmanagedValues_error moveOrCopyElements_error storeElements_error)

lemma visitType_no_out:
  "\<forall>p \<in> set (fst s). getConvention p \<noteq> Indirect_Out \<Longrightarrow>
     visitType tc fa d t s \<noteq> Inl UnreachableOutParameter"
  by (cases s; cases "fst s"; cases "getConvention (hd (fst s))")
     (auto simp: visitType_def newSILArgument_def createCopyBlock_def
        emitManagedRValueWithCleanup_def enterDestroyCleanup_def pushCleanup_def Let_def
        split: if_splits sum.splits prod.splits)

lemma visit_no_out:
  "\<forall>p \<in> set (fst s). getConvention p \<noteq> Indirect_Out \<Longrightarrow>
     visit tc fa d t s \<noteq> Inl UnreachableOutParameter"
  "\<forall>p \<in> set (fst s). getConvention p \<noteq> Indirect_Out \<Longrightarrow>
     visitElements tc fa d ts acc s \<noteq> Inl UnreachableOutParameter"
proof (induction tc fa d t s and tc fa d ts acc s rule: visit_visitElements.induct)
  case (1 tc functionArgs d ts s)
  then show ?case
    by (auto split: sum.splits dest: aggregateTuple_error)
next
  case (4 tc functionArgs d fieldType ts acc s)
  show ?case
  proof (cases "visit tc functionArgs d fieldType s")
    case (Inl e)
    with "4.IH"(1)[OF "4.prems"] show ?thesis by auto
  next
    case (Inr r)
    obtain elt s1 where r: "r = (elt, s1)" by (cases r)
    from visit_consumes_aux(1)[OF Inr[unfolded r]] have "set (fst s1) \<subseteq> set (fst s)"
      by (auto dest: in_set_dropD)
    with "4.prems" have "\<forall>p \<in> set (fst s1). getConvention p \<noteq> Indirect_Out" by blast
    from "4.IH"(2)[OF Inr[unfolded r] refl this] Inr r show ?thesis by simp
  qed
qed (auto dest: visitType_no_out)

lemma captureArguments_Nil [simp]: "captureArguments a c n [] = []"
  by (simp add: captureArguments_def)

lemma captureArguments_Cons [simp]:
  "captureArguments a c n (l # ls) = SILArgument n (SILType l a) c # captureArguments a c (Suc n) ls"
  by (simp add: captureArguments_def)

lemma captureArguments_append:
  "captureArguments a c n (xs @ ys) = captureArguments a c n xs @ captureArguments a c (n + length xs) ys"
  by (induction xs arbitrary: n) auto

lemma length_captureArguments [simp]: "length (captureArguments a c n ls) = length ls"
  by (simp add: captureArguments_def)

lemma emitCleanups_frame:
  "emitCleanups cs g = Inr g' \<Longrightarrow>
     F_begin g' = F_begin g \<and> IndirectReturnAddress g' = IndirectReturnAddress g \<and>
     VarLocs g' = VarLocs g \<and> Cleanups g' = Cleanups g"
proof (induction cs arbitrary: g)
  case Nil
  then show ?case by simp
next
  case (Cons x cs)
  obtain c st where x: "x = (c, st)" by (cases x)
  show ?case
  proof (cases "st = Active")
    case True
    with Cons.prems x obtain g1 where e: "emitCleanup c g = Inr g1" and r: "emitCleanups cs g1 = Inr g'"
      by (auto split: sum.splits)
    from e have "F_begin g1 = F_begin g \<and> IndirectReturnAddress g1 = IndirectReturnAddress g \<and>
       VarLocs g1 = VarLocs g \<and> Cleanups g1 = Cleanups g"
      by (cases c) (auto simp: emitInst_def split: option.splits)
    with Cons.IH[OF r] show ?thesis by simp
  next
    case False
    with Cons.prems x Cons.IH[of g] show ?thesis by simp
  qed
qed

lemma emitCleanups_error: "emitCleanups cs g = Inl e \<Longrightarrow> e = NullVarLoc"
proof (induction cs arbitrary: g)
  case Nil
  then show ?case by simp
next
  case (Cons x cs)
  obtain c st where x: "x = (c, st)" by (cases x)
  have "\<And>e'. emitCleanup c g = Inl e' \<Longrightarrow> e' = NullVarLoc"
    by (cases c) (auto split: option.splits)
  with Cons x show ?case by (auto split: if_splits sum.splits)
qed

lemma visitNamedPattern_args:
  assumes "visitNamedPattern tc PD ty s = Inr s'"
  shows "length (flattenTuple ty) \<le> length (fst s) \<and>
     fst s' = drop (length (flattenTuple ty)) (fst s) \<and>
     F_begin (snd s') = F_begin (snd s) @ argumentsFor tc PD (length (F_begin (snd s))) (flattenTuple ty) \<and>
     IndirectReturnAddress (snd s') = IndirectReturnAddress (snd s)"
proof (cases "hasName PD")
  case False
  with assms obtain mv ps g1 g2 where
    m: "visit tc True PD ty s = Inr (mv, ps, g1)"
    and p: "popScope (length (Cleanups (snd s))) g1 = Inr g2" and s': "s' = (ps, g2)"
    by (auto simp: visitNamedPattern_def makeArgument_def Let_def split: sum.splits)
  from p have "F_begin g2 = F_begin g1 \<and> IndirectReturnAddress g2 = IndirectReturnAddress g1"
    by (auto simp: popScope_def dest!: emitCleanups_frame)
  with visit_consumes_aux(1)[OF m] s' show ?thesis by simp
next
  case True
  with assms obtain mv ps g1 where
    m: "visit tc True PD ty s = Inr (mv, ps, g1)"
    by (auto simp: visitNamedPattern_def makeArgumentIntoBinding_def makeArgument_def
          split: sum.splits)
  with assms True have "fst s' = ps \<and> F_begin (snd s') = F_begin g1 \<and>
     IndirectReturnAddress (snd s') = IndirectReturnAddress g1"
    by (cases "getType PD")
       (auto simp: visitNamedPattern_def makeArgumentIntoBinding_def makeArgument_def
          emitLocalVariableWithCleanup_def finishInitialization_def pushCleanup_def
          setCleanupState_def emitInst_def forwardInto_def forward_def copyInto_def Let_def
          split: sum.splits if_splits option.splits)
  with visit_consumes_aux(1)[OF m] show ?thesis by simp
qed

lemma visitNamedPattern_no_out:
  assumes "\<forall>p \<in> set (fst s). getConvention p \<noteq> Indirect_Out"
  shows "visitNamedPattern tc PD ty s \<noteq> Inl UnreachableOutParameter"
proof
  assume a: "visitNamedPattern tc PD ty s = Inl UnreachableOutParameter"
  note v = visit_no_out(1)[OF assms, of tc True PD ty]
  show False
  proof (cases "hasName PD")
    case False
    with a v show False
      by (auto simp: visitNamedPattern_def makeArgument_def popScope_def Let_def
            split: sum.splits dest: emitCleanups_error)
  next
    case True
    with a v show False
      by (cases "getType PD")
         (auto simp: visitNamedPattern_def makeArgumentIntoBinding_def makeArgument_def
            getUnmanagedValue_def forwardInto_def forward_def Let_def
            split: sum.splits if_splits option.splits prod.splits)
  qed
qed

lemma visitPattern_args:
  "visitPattern tc P s = Inr s' \<Longrightarrow>
     length (patternLeaves P) \<le> length (fst s) \<and>
     fst s' = drop (length (patternLeaves P)) (fst s) \<and>
     F_begin (snd s') = F_begin (snd s) @ leafArguments tc (length (F_begin (snd s))) (patternLeaves P) \<and>
     IndirectReturnAddress (snd s') = IndirectReturnAddress (snd s)"
  "visitPatterns tc Ps s = Inr s' \<Longrightarrow>
     length (concat (map patternLeaves Ps)) \<le> length (fst s) \<and>
     fst s' = drop (length (concat (map patternLeaves Ps))) (fst s) \<and>
     F_begin (snd s') = F_begin (snd s) @ leafArguments tc (length (F_begin (snd s))) (concat (map patternLeaves Ps)) \<and>
     IndirectReturnAddress (snd s') = IndirectReturnAddress (snd s)"
proof (induction tc P s and tc Ps s arbitrary: s' and s' rule: visitPattern_visitPatterns.induct)
  case (6 tc PD ty s)
  then have "visitNamedPattern tc PD ty s = Inr s'" by simp
  from visitNamedPattern_args[OF this] show ?case
    by (simp add: leafArguments_Pair)
next
  case (9 tc P Ps s)
  from "9.prems" obtain s1 where
    v: "visitPattern tc P s = Inr s1" and r: "visitPatterns tc Ps s1 = Inr s'"
    by (auto split: sum.splits)
  note a = "9.IH"(1)[OF v]
  note b = "9.IH"(2)[OF v r]
  from a b have "length (patternLeaves P) + length (concat (map patternLeaves Ps)) \<le> length (fst s)"
    by auto
  with a b show ?case
    by (simp add: leafArguments_append add.commute)
qed auto

lemma visitPattern_no_out:
  "\<forall>p \<in> set (fst s). getConvention p \<noteq> Indirect_Out \<Longrightarrow>
     visitPattern tc P s \<noteq> Inl UnreachableOutParameter"
  "\<forall>p \<in> set (fst s). getConvention p \<noteq> Indirect_Out \<Longrightarrow>
     visitPatterns tc Ps s \<noteq> Inl UnreachableOutParameter"
proof (induction tc P s and tc Ps s rule: visitPattern_visitPatterns.induct)
  case (6 tc PD ty s)
  then show ?case by (simp add: visitNamedPattern_no_out)
next
  case (9 tc P Ps s)
  show ?case
  proof (cases "visitPattern tc P s")
    case (Inl e)
    with "9.IH"(1)[OF "9.prems"] show ?thesis by auto
  next
    case (Inr s1)
    from visitPattern_args(1)[OF Inr] have "set (fst s1) \<subseteq> set (fst s)"
      by (auto dest: in_set_dropD)
    with "9.prems" have "\<forall>p \<in> set (fst s1). getConvention p \<noteq> Indirect_Out" by blast
    from "9.IH"(2)[OF Inr this] Inr show ?thesis by simp
  qed
qed auto

lemma emitReconstituted_frame:
  "emitReconstitutedConstantCaptureArguments ty capture g = (val, g') \<Longrightarrow>
     F_begin g' = F_begin g @
        captureArguments (isAddress ty) capture (length (F_begin g)) (flattenTuple (getSwiftRValueType ty)) \<and>
     Cleanups g' = Cleanups g \<and> VarLocs g' = VarLocs g \<and>
     IndirectReturnAddress g' = IndirectReturnAddress g \<and> allocations g' = allocations g"
  "emitReconstitutedElements ts a capture g = (vals, g') \<Longrightarrow>
     F_begin g' = F_begin g @
        captureArguments a capture (length (F_begin g)) (concat (map flattenTuple ts)) \<and>
     Cleanups g' = Cleanups g \<and> VarLocs g' = VarLocs g \<and>
     IndirectReturnAddress g' = IndirectReturnAddress g \<and> allocations g' = allocations g"
proof (induction ty capture g and ts a capture g arbitrary: val g' and vals g'
        rule: emitReconstitutedConstantCaptureArguments_emitReconstitutedElements.induct)
  case (1 ts a capture gen)
  from "1.prems" obtain Elts g1 where
    e: "emitReconstitutedElements ts a capture gen = (Elts, g1)"
    and c: "createTuple (SILType (TupleType ts) a) Elts g1 = (val, g')"
    by (auto split: prod.splits)
  from "1.IH"[OF e] c show ?case
    by (auto simp: createTuple_def emitInst_def Let_def)
next
  case (4 t ts a capture gen)
  from "4.prems" obtain EV g1 Elts where
    v: "emitReconstitutedConstantCaptureArguments (SILType t a) capture gen = (EV, g1)"
    and r: "emitReconstitutedElements ts a capture g1 = (Elts, g')"
    by (auto split: prod.splits)
  from "4.IH"(1)[OF v] "4.IH"(2)[OF v[symmetric] r] show ?case
    by (simp add: captureArguments_append add.commute)
qed (auto simp: newSILArgument_def Let_def)



lemmas scenarioD_defs =
  xDecl_def yDecl_def scenarioD_gen_def scenarioD_patterns_def



lemma F_parameters_emitIndirectReturn [simp]:
  "F_parameters (emitIndirectReturn tc fresh resultType gen) = F_parameters gen"
  by (simp add: emitIndirectReturn_def newSILArgument_def Let_def)

lemma ArgumentInitVisitor_emitIndirectReturn [simp]:
  "ArgumentInitVisitor (emitIndirectReturn tc fresh resultType gen) = ArgumentInitVisitor gen"
  by (simp add: ArgumentInitVisitor_def)

lemma ArgumentInitVisitor_no_out:
  assumes "\<forall>p \<in> set (drop 1 (F_parameters gen)). getConvention p \<noteq> Indirect_Out"
  shows "\<forall>p \<in> set (ArgumentInitVisitor gen). getConvention p \<noteq> Indirect_Out"
proof (cases "F_parameters gen")
  case Nil
  then show ?thesis by (simp add: ArgumentInitVisitor_def)
next
  case (Cons p rest)
  with assms show ?thesis
    by (auto simp: ArgumentInitVisitor_def isIndirectResult_def Let_def split: if_splits)
qed

lemma forwardMakeArgument_effect:
  "forwardMakeArgument tc t d s =
     (fst s @ argumentsFor tc d (length (F_begin (snd s))) (flattenTuple t),
      (snd s)\<lparr>F_begin := F_begin (snd s) @ argumentsFor tc d (length (F_begin (snd s))) (flattenTuple t)\<rparr>)"
  "forwardMakeArguments tc ts d s =
     (fst s @ argumentsFor tc d (length (F_begin (snd s))) (concat (map flattenTuple ts)),
      (snd s)\<lparr>F_begin := F_begin (snd s) @ argumentsFor tc d (length (F_begin (snd s))) (concat (map flattenTuple ts))\<rparr>)"
proof (induction tc t d s and tc ts d s rule: forwardMakeArgument_forwardMakeArguments.induct)
  case (4 tc fieldType ts varDecl s)
  then show ?case
    by (simp add: argumentsFor_append add.commute)
qed (auto simp: newSILArgument_def Let_def)

lemma forwardVisit_effect:
  "forwardVisit tc P s = Inr s' \<Longrightarrow>
     s' = (fst s @ leafArguments tc (length (F_begin (snd s))) (forwardLeaves P),
           (snd s)\<lparr>F_begin := F_begin (snd s) @ leafArguments tc (length (F_begin (snd s))) (forwardLeaves P)\<rparr>)"
  "forwardVisits tc Ps s = Inr s' \<Longrightarrow>
     s' = (fst s @ leafArguments tc (length (F_begin (snd s))) (concat (map forwardLeaves Ps)),
           (snd s)\<lparr>F_begin := F_begin (snd s) @ leafArguments tc (length (F_begin (snd s))) (concat (map forwardLeaves Ps))\<rparr>)"
proof (induction tc P s and tc Ps s arbitrary: s' and s' rule: forwardVisit_forwardVisits.induct)
  case (3 tc ty NPD nty s)
  then show ?case by (auto simp: forwardMakeArgument_effect leafArguments_Pair)
next
  case (7 tc PD ty s)
  then show ?case by (auto simp: forwardMakeArgument_effect leafArguments_Pair)
next
  case (10 tc P Ps s)
  from "10.prems" obtain s1 where
    v: "forwardVisit tc P s = Inr s1" and r: "forwardVisits tc Ps s1 = Inr s'"
    by (auto split: sum.splits)
  from "10.IH"(1)[OF v] "10.IH"(2)[OF v r] show ?case
    by (simp add: leafArguments_append add.commute)
qed auto

lemma forwardLeaves_consistent: "typedConsistent P \<Longrightarrow> forwardLeaves P = patternLeaves P"
proof (induction P rule: forwardLeaves.induct)
  case (5 Ps)
  then have "\<forall>P \<in> set Ps. forwardLeaves P = patternLeaves P"
    by (auto simp: list_all_iff)
  then have "map forwardLeaves Ps = map patternLeaves Ps" by (intro map_cong) simp_all
  then show ?case by (simp only: forwardLeaves.simps patternLeaves.simps)
qed simp_all

lemma length_flattenValue:
  "hasShape t v \<Longrightarrow> length (flattenValue v) = length (flattenTuple t)"
  "hasShapes ts vs \<Longrightarrow> length (concat (map flattenValue vs)) = length (concat (map flattenTuple ts))"
  by (induction t v and ts vs rule: hasShape_hasShapes.induct) simp_all

lemma emitReconstituted_denotes:
  "emitReconstitutedConstantCaptureArguments ty capture g = (val, g') \<Longrightarrow>
   hasShape (getSwiftRValueType ty) v \<Longrightarrow> length env = length (F_begin g) \<Longrightarrow>
     evalValue (env @ flattenValue v @ rest) val = Some v"
  "emitReconstitutedElements ts a capture g = (vals, g') \<Longrightarrow>
   hasShapes ts vs \<Longrightarrow> length env = length (F_begin g) \<Longrightarrow>
     those (map (evalValue (env @ concat (map flattenValue vs) @ rest)) vals) = Some vs"
proof (induction ty capture g and ts a capture g arbitrary: val g' v env rest and vals g' vs env rest
        rule: emitReconstitutedConstantCaptureArguments_emitReconstitutedElements.induct)
  case (1 ts a capture gen)
  from "1.prems"(1) obtain Elts g1 where
    e: "emitReconstitutedElements ts a capture gen = (Elts, g1)"
    and val: "val = TupleInst (SILType (TupleType ts) a) Elts"
    by (auto simp: createTuple_def Let_def split: prod.splits)
  from "1.prems"(2) obtain vs where v: "v = Aggregate vs" and sh: "hasShapes ts vs"
    by (cases v) simp_all
  from "1.IH"[OF e sh "1.prems"(3), of rest] val v show ?case by simp
next
  case (4 t ts a capture gen)
  from "4.prems"(1) obtain EV g1 Elts where
    ev: "emitReconstitutedConstantCaptureArguments (SILType t a) capture gen = (EV, g1)"
    and r: "emitReconstitutedElements ts a capture g1 = (Elts, g')"
    and vals: "vals = EV # Elts"
    by (auto split: prod.splits)
  from "4.prems"(2) obtain w ws where vs: "vs = w # ws" and shw: "hasShape t w" and shws: "hasShapes ts ws"
    by (cases vs) simp_all
  from shw have shw': "hasShape (getSwiftRValueType (SILType t a)) w" by simp
  from "4.IH"(1)[OF ev shw' "4.prems"(3), of "concat (map flattenValue ws) @ rest"]
  have 1: "evalValue (env @ flattenValue w @ concat (map flattenValue ws) @ rest) EV = Some w" .
  from emitReconstituted_frame(1)[OF ev] length_flattenValue(1)[OF shw] "4.prems"(3)
  have len: "length (env @ flattenValue w) = length (F_begin g1)" by simp
  from "4.IH"(2)[OF ev[symmetric] r shws len, of rest]
  have 2: "those (map (evalValue (env @ flattenValue w @ concat (map flattenValue ws) @ rest)) Elts) = Some ws"
    by simp
  from 1 2 vals vs show ?case by simp
next
  case (3 a capture gen)
  then show ?case by (cases vs) simp_all
qed (auto simp: newSILArgument_def Let_def nth_append elim!: hasShape.elims)

lemma lastStored_append_store [simp]:
  "lastStored addr (insts @ [StoreInst v addr]) = Some v"
  by (induction insts) simp_all

lemma lastStored_append_other:
  "storedInto addr i = None \<Longrightarrow> lastStored addr (insts @ [i]) = lastStored addr insts"
  by (induction insts) (simp_all split: option.splits)

lemma readBack_evalValue: "evalValue env val = Some v \<Longrightarrow> readBack env insts val = Some v"
  by (cases val) simp_all

text \<open>What a returned visit of a loadable tuple has done.\<close>

lemma visitTupleType_loadable_returned:
  assumes "isLoadable tc (TupleType ts)"
    and "visit tc functionArgs d (TupleType ts) s = Inr (mv, parameters', gen')"
  shows "\<exists>canBeGuaranteed elements gen1.
      visitElements tc functionArgs d ts (True, []) s
        = Inr ((canBeGuaranteed, elements), (parameters', gen1)) \<and>
      length elements = length ts \<and>
      (if \<forall>e \<in> set elements. \<not> hasCleanup e
       then mv = forUnmanaged (TupleInst (getLoweredType tc (TupleType ts)) (map getValue elements)) \<and>
            gen' = gen1\<lparr>B_emitted := B_emitted gen1 @
                     [ValueInst (TupleInst (getLoweredType tc (TupleType ts)) (map getValue elements))]\<rparr> \<and>
            Cleanups gen' = Cleanups gen1
       else getValue mv = TupleInst (getLoweredType tc (TupleType ts))
                            (map (\<lambda>e. if hasCleanup e then getValue e else CopyValueInst (getValue e)) elements) \<and>
            (\<forall>e \<in> set elements. \<not> hasCleanup e \<longrightarrow>
               ValueInst (CopyValueInst (getValue e)) \<in> set (B_emitted gen')) \<and>
            (\<forall>e \<in> set elements. \<forall>h. getCleanup e = Some h \<longrightarrow>
               h < length (Cleanups gen1) \<and>
               Cleanups gen1 ! h = (DestroyValueCleanup (getValue e), Active) \<and>
               snd (Cleanups gen' ! h) = Dead) \<and>
            (\<exists>copies. drop (length (Cleanups gen1)) (Cleanups gen')
                         = copies @ [(DestroyValueCleanup (getValue mv), Active)] \<and>
                      (\<forall>c \<in> set copies. snd c = Dead)) \<and>
            getCleanup mv = Some (length (Cleanups gen') - 1))"
proof -
  from assms(2) obtain cbg es g1 where
    ve: "visitElements tc functionArgs d ts (isLoadable tc (TupleType ts), []) s = Inr ((cbg, es), (parameters', g1))"
    and ag: "aggregateTuple tc (TupleType ts) cbg es g1 = Inr (mv, gen')"
    by (auto split: sum.splits)
  from visit_cleanups(2)[OF ve] assms(1) have len: "length es = length ts"
    and own: "\<forall>e \<in> set es. ownsCleanup (length (Cleanups (snd s))) e g1"
    and cbg: "cbg = (\<forall>e \<in> set es. \<not> hasCleanup e)"
    by auto
  have body: "(if \<forall>e \<in> set es. \<not> hasCleanup e
       then mv = forUnmanaged (TupleInst (getLoweredType tc (TupleType ts)) (map getValue es)) \<and>
            gen' = g1\<lparr>B_emitted := B_emitted g1 @
                     [ValueInst (TupleInst (getLoweredType tc (TupleType ts)) (map getValue es))]\<rparr> \<and>
            Cleanups gen' = Cleanups g1
       else getValue mv = TupleInst (getLoweredType tc (TupleType ts))
                            (map (\<lambda>e. if hasCleanup e then getValue e else CopyValueInst (getValue e)) es) \<and>
            (\<forall>e \<in> set es. \<not> hasCleanup e \<longrightarrow>
               ValueInst (CopyValueInst (getValue e)) \<in> set (B_emitted gen')) \<and>
            (\<forall>e \<in> set es. \<forall>h. getCleanup e = Some h \<longrightarrow>
               h < length (Cleanups g1) \<and>
               Cleanups g1 ! h = (DestroyValueCleanup (getValue e), Active) \<and>
               snd (Cleanups gen' ! h) = Dead) \<and>
            (\<exists>copies. drop (length (Cleanups g1)) (Cleanups gen')
                         = copies @ [(DestroyValueCleanup (getValue mv), Active)] \<and>
                      (\<forall>c \<in> set copies. snd c = Dead)) \<and>
            getCleanup mv = Some (length (Cleanups gen') - 1))"
  proof (cases "\<forall>e \<in> set es. \<not> hasCleanup e")
    case True
    with cbg ag assms(1) getUnmanagedValues_unmanaged[OF True] show ?thesis
      by (auto simp: aggregateTuple_def createTuple_def emitInst_def Let_def)
  next
    case False
    with cbg ag assms(1) obtain vs g2 where
      m: "moveOrCopyElements es g1 = Inr (vs, g2)"
      and r: "emitManagedRValueWithCleanup (TupleInst (getLoweredType tc (TupleType ts)) vs)
                (emitInst (ValueInst (TupleInst (getLoweredType tc (TupleType ts)) vs)) g2) = (mv, gen')"
      by (auto simp: aggregateTuple_def createTuple_def Let_def split: sum.splits)
    have valid: "\<forall>e \<in> set es. \<forall>h. getCleanup e = Some h \<longrightarrow> h < length (Cleanups g1)"
      using own by (auto simp: ownsCleanup_def)
    note eff = moveOrCopyElements_effect[OF m valid]
    note st = moveOrCopyElements_dead_stable[OF m]
    from ownsCleanup_emitManagedRValueWithCleanup[OF r]
    have mvv: "getValue mv = TupleInst (getLoweredType tc (TupleType ts)) vs"
      and mvc: "getCleanup mv = Some (length (Cleanups g2))"
      and cl: "Cleanups gen' = Cleanups g2 @ [(DestroyValueCleanup (getValue mv), Active)]"
      by simp_all
    from r have be: "B_emitted gen' = B_emitted g2 @ [ValueInst (TupleInst (getLoweredType tc (TupleType ts)) vs)]"
      by (auto simp: emitManagedRValueWithCleanup_def enterDestroyCleanup_def pushCleanup_def
            emitInst_def)
    have a: "getValue mv = TupleInst (getLoweredType tc (TupleType ts))
               (map (\<lambda>e. if hasCleanup e then getValue e else CopyValueInst (getValue e)) es)"
      using mvv eff by simp
    have b: "\<forall>e \<in> set es. \<not> hasCleanup e \<longrightarrow> ValueInst (CopyValueInst (getValue e)) \<in> set (B_emitted gen')"
      using eff be by simp
    have c: "\<forall>e \<in> set es. \<forall>h. getCleanup e = Some h \<longrightarrow>
               h < length (Cleanups g1) \<and>
               Cleanups g1 ! h = (DestroyValueCleanup (getValue e), Active) \<and>
               snd (Cleanups gen' ! h) = Dead"
    proof (intro ballI allI impI)
      fix e h assume e: "e \<in> set es" and h: "getCleanup e = Some h"
      from own e h have 1: "h < length (Cleanups g1)"
        and 2: "Cleanups g1 ! h = (DestroyValueCleanup (getValue e), Active)"
        by (auto simp: ownsCleanup_def)
      from 1 st have "h < length (Cleanups g2)" by simp
      with eff e h cl have "snd (Cleanups gen' ! h) = Dead" by (simp add: nth_append)
      with 1 2 show "h < length (Cleanups g1) \<and>
               Cleanups g1 ! h = (DestroyValueCleanup (getValue e), Active) \<and>
               snd (Cleanups gen' ! h) = Dead" by simp
    qed
    have d: "\<exists>copies. drop (length (Cleanups g1)) (Cleanups gen')
                         = copies @ [(DestroyValueCleanup (getValue mv), Active)] \<and>
                      (\<forall>c \<in> set copies. snd c = Dead)"
    proof (intro exI conjI)
      show "drop (length (Cleanups g1)) (Cleanups gen')
              = drop (length (Cleanups g1)) (Cleanups g2) @ [(DestroyValueCleanup (getValue mv), Active)]"
        using cl st by simp
      show "\<forall>c \<in> set (drop (length (Cleanups g1)) (Cleanups g2)). snd c = Dead"
      proof
        fix c assume "c \<in> set (drop (length (Cleanups g1)) (Cleanups g2))"
        then obtain i where i: "i < length (Cleanups g2) - length (Cleanups g1)"
          and c: "c = Cleanups g2 ! (length (Cleanups g1) + i)"
          by (auto simp: in_set_conv_nth)
        from i have "length (Cleanups g1) \<le> length (Cleanups g1) + i \<and>
                     length (Cleanups g1) + i < length (Cleanups g2)" by simp
        with eff c show "snd c = Dead" by blast
      qed
    qed
    have e: "getCleanup mv = Some (length (Cleanups gen') - 1)" using mvc cl by simp
    show ?thesis by (subst if_not_P[OF False]) (intro conjI a b c d e)
  qed
  from ve assms(1) len body show ?thesis by auto
qed

section \<open>Properties of the prologue emitter\<close>

text \<open>
  C1 (as amended). The ownership resolver \<open>getManagedValue\<close> maps the convention tag
  alone to the ownership state: direct-deallocating, direct-guaranteed and
  indirect-in-guaranteed give the argument with no cleanup, indirect-inout gives it as an
  lvalue with no cleanup, direct-unowned retains it and pushes a matching release cleanup,
  direct-owned and indirect-in push a release cleanup on the incoming value. A slot
  materialized by the prologue (\<open>makeArgument\<close>) gets exactly that managed value unless
  its type is a (possibly optional) block function: then the block is copied and the
  slot's managed value is the copy with a release cleanup of its own, whatever the tag.
\<close>

theorem materialized_ownership_by_convention:
  "getManagedValue arg t parameterInfo gen =
     (if getConvention parameterInfo \<in> {Direct_Deallocating, Direct_Guaranteed, Indirect_In_Guaranteed}
      then Inr (ManagedValue arg None False, gen)
      else if getConvention parameterInfo = Indirect_Inout
      then Inr (ManagedValue arg None True, gen)
      else if getConvention parameterInfo = Direct_Unowned
      then Inr (ManagedValue arg (Some (length (Cleanups gen))) False,
                gen\<lparr>B_emitted := B_emitted gen @ [RetainValueInst arg],
                    Cleanups := Cleanups gen @ [(DestroyValueCleanup arg, Active)]\<rparr>)
      else if getConvention parameterInfo \<in> {Direct_Owned, Indirect_In}
      then Inr (ManagedValue arg (Some (length (Cleanups gen))) False,
                gen\<lparr>Cleanups := Cleanups gen @ [(DestroyValueCleanup arg, Active)]\<rparr>)
      else Inl UnreachableOutParameter)
   \<and> makeArgument tc t d (parameterInfo # rest, gen) =
     (if isBlockFunctionType (case getAnyOptionalObjectType t of Some theObjTy \<Rightarrow> theObjTy | None \<Rightarrow> t)
      then
        (if getLoweredType tc t \<noteq> mapTypeIntoContext tc (getSILType parameterInfo)
         then Inl ArgumentTypeMismatch
         else
           (case getManagedValue (SILArgument (length (F_begin gen)) (getLoweredType tc t) d) t
                   parameterInfo (gen\<lparr>F_begin := F_begin gen @ [SILArgument (length (F_begin gen)) (getLoweredType tc t) d]\<rparr>) of
              Inl e \<Rightarrow> Inl e
            | Inr (mv, gen2) \<Rightarrow>
                Inr (ManagedValue (CopyBlockInst (getValue mv)) (Some (length (Cleanups gen2))) False,
                     rest,
                     gen2\<lparr>B_emitted := B_emitted gen2 @ [ValueInst (CopyBlockInst (getValue mv))],
                          Cleanups := Cleanups gen2 @ [(DestroyValueCleanup (CopyBlockInst (getValue mv)), Active)]\<rparr>)))
      else
        (case t of
           TupleType ts \<Rightarrow> visit tc True d (TupleType ts) (parameterInfo # rest, gen)
         | _ \<Rightarrow>
           (if getLoweredType tc t \<noteq> mapTypeIntoContext tc (getSILType parameterInfo)
            then Inl ArgumentTypeMismatch
            else
              (case getManagedValue (SILArgument (length (F_begin gen)) (getLoweredType tc t) d) t
                      parameterInfo (gen\<lparr>F_begin := F_begin gen @ [SILArgument (length (F_begin gen)) (getLoweredType tc t) d]\<rparr>) of
                 Inl e \<Rightarrow> Inl e
               | Inr (mv, gen2) \<Rightarrow> Inr (mv, rest, gen2)))))"
proof (intro conjI)
  show "getManagedValue arg t parameterInfo gen =
     (if getConvention parameterInfo \<in> {Direct_Deallocating, Direct_Guaranteed, Indirect_In_Guaranteed}
      then Inr (ManagedValue arg None False, gen)
      else if getConvention parameterInfo = Indirect_Inout
      then Inr (ManagedValue arg None True, gen)
      else if getConvention parameterInfo = Direct_Unowned
      then Inr (ManagedValue arg (Some (length (Cleanups gen))) False,
                gen\<lparr>B_emitted := B_emitted gen @ [RetainValueInst arg],
                    Cleanups := Cleanups gen @ [(DestroyValueCleanup arg, Active)]\<rparr>)
      else if getConvention parameterInfo \<in> {Direct_Owned, Indirect_In}
      then Inr (ManagedValue arg (Some (length (Cleanups gen))) False,
                gen\<lparr>Cleanups := Cleanups gen @ [(DestroyValueCleanup arg, Active)]\<rparr>)
      else Inl UnreachableOutParameter)"
    by (cases "getConvention parameterInfo")
       (simp_all add: forUnmanaged_def forLValue_def emitManagedRetain_def
          emitManagedRValueWithCleanup_def enterDestroyCleanup_def pushCleanup_def emitInst_def)
next
  show "makeArgument tc t d (parameterInfo # rest, gen) =
     (if isBlockFunctionType (case getAnyOptionalObjectType t of Some theObjTy \<Rightarrow> theObjTy | None \<Rightarrow> t)
      then
        (if getLoweredType tc t \<noteq> mapTypeIntoContext tc (getSILType parameterInfo)
         then Inl ArgumentTypeMismatch
         else
           (case getManagedValue (SILArgument (length (F_begin gen)) (getLoweredType tc t) d) t
                   parameterInfo (gen\<lparr>F_begin := F_begin gen @ [SILArgument (length (F_begin gen)) (getLoweredType tc t) d]\<rparr>) of
              Inl e \<Rightarrow> Inl e
            | Inr (mv, gen2) \<Rightarrow>
                Inr (ManagedValue (CopyBlockInst (getValue mv)) (Some (length (Cleanups gen2))) False,
                     rest,
                     gen2\<lparr>B_emitted := B_emitted gen2 @ [ValueInst (CopyBlockInst (getValue mv))],
                          Cleanups := Cleanups gen2 @ [(DestroyValueCleanup (CopyBlockInst (getValue mv)), Active)]\<rparr>)))
      else
        (case t of
           TupleType ts \<Rightarrow> visit tc True d (TupleType ts) (parameterInfo # rest, gen)
         | _ \<Rightarrow>
           (if getLoweredType tc t \<noteq> mapTypeIntoContext tc (getSILType parameterInfo)
            then Inl ArgumentTypeMismatch
            else
              (case getManagedValue (SILArgument (length (F_begin gen)) (getLoweredType tc t) d) t
                      parameterInfo (gen\<lparr>F_begin := F_begin gen @ [SILArgument (length (F_begin gen)) (getLoweredType tc t) d]\<rparr>) of
                 Inl e \<Rightarrow> Inl e
               | Inr (mv, gen2) \<Rightarrow> Inr (mv, rest, gen2)))))"
  proof (cases t)
    case (OptionalType u)
    then show ?thesis
      by (cases u)
         (simp_all add: makeArgument_def visitType_def newSILArgument_def createCopyBlock_def
            emitManagedRValueWithCleanup_def enterDestroyCleanup_def pushCleanup_def emitInst_def
            Let_def split: sum.splits prod.splits)
  qed (simp_all add: makeArgument_def visitType_def newSILArgument_def createCopyBlock_def
            emitManagedRValueWithCleanup_def enterDestroyCleanup_def pushCleanup_def emitInst_def
            Let_def split: sum.splits prod.splits)
qed

text \<open>
  C1 as stated fails: a block argument passed direct-guaranteed is materialized as a
  copy that carries a cleanup.
\<close>

theorem guaranteed_block_argument_gets_cleanup:
  "getConvention (SILParameterInfo (SILType (FunctionType Block) False) Direct_Guaranteed) = Direct_Guaranteed
   \<and> makeArgument exampleTC (FunctionType Block) blockDecl
       ([SILParameterInfo (SILType (FunctionType Block) False) Direct_Guaranteed], emptyGen)
     = Inr (ManagedValue (CopyBlockInst blockArg) (Some 0) False, [],
            emptyGen\<lparr>F_begin := [blockArg],
                     B_emitted := [ValueInst (CopyBlockInst blockArg)],
                     Cleanups := [(DestroyValueCleanup (CopyBlockInst blockArg), Active)]\<rparr>)"
  by (simp add: helper_defs example_defs blockDecl_def blockArg_def)

text \<open>
  C2. For a tuple whose lowering is loadable, once its elements are materialized, the
  materializer returns, and: if no element carries a cleanup, the result is the tuple
  of the elements' values with no cleanup, the tuple instruction is the only thing
  emitted and the cleanup stack is as the elements left it. Otherwise the tuple is built
  from fully owned values: an element with a cleanup is moved (its value goes in as it
  is and its cleanup, until then active, is dead afterwards), an element without one is
  copied (the copy is emitted and goes in, and the copy's cleanup is dead afterwards); the
  result carries exactly one cleanup, the active destroy cleanup of the tuple on top of
  the stack, and it is the only record pushed by the aggregation that is not dead.
\<close>

theorem visitTupleType_loadable:
  assumes "isLoadable tc (TupleType ts)"
    and "visitElements tc functionArgs d ts (True, []) s
           = Inr ((canBeGuaranteed, elements), (parameters', gen1))"
  shows "\<exists>mv gen'.
      visit tc functionArgs d (TupleType ts) s = Inr (mv, parameters', gen') \<and>
      length elements = length ts \<and>
      canBeGuaranteed = (\<forall>e \<in> set elements. \<not> hasCleanup e) \<and>
      (if \<forall>e \<in> set elements. \<not> hasCleanup e
       then mv = forUnmanaged (TupleInst (getLoweredType tc (TupleType ts)) (map getValue elements)) \<and>
            gen' = gen1\<lparr>B_emitted := B_emitted gen1 @
                     [ValueInst (TupleInst (getLoweredType tc (TupleType ts)) (map getValue elements))]\<rparr> \<and>
            Cleanups gen' = Cleanups gen1
       else getValue mv = TupleInst (getLoweredType tc (TupleType ts))
                            (map (\<lambda>e. if hasCleanup e then getValue e else CopyValueInst (getValue e)) elements) \<and>
            (\<forall>e \<in> set elements. \<not> hasCleanup e \<longrightarrow>
               ValueInst (CopyValueInst (getValue e)) \<in> set (B_emitted gen')) \<and>
            (\<forall>e \<in> set elements. \<forall>h. getCleanup e = Some h \<longrightarrow>
               h < length (Cleanups gen1) \<and>
               Cleanups gen1 ! h = (DestroyValueCleanup (getValue e), Active) \<and>
               snd (Cleanups gen' ! h) = Dead) \<and>
            (\<exists>copies. drop (length (Cleanups gen1)) (Cleanups gen')
                         = copies @ [(DestroyValueCleanup (getValue mv), Active)] \<and>
                      (\<forall>c \<in> set copies. snd c = Dead)) \<and>
            getCleanup mv = Some (length (Cleanups gen') - 1))"
proof -
  from assms have ve:
    "visitElements tc functionArgs d ts (isLoadable tc (TupleType ts), []) s
       = Inr ((canBeGuaranteed, elements), (parameters', gen1))" by simp
  from visit_cleanups(2)[OF ve] assms(1)
  have cbg: "canBeGuaranteed = (\<forall>e \<in> set elements. \<not> hasCleanup e)" by auto
  from aggregateTuple_loadable_returns[OF assms(1) cbg, of gen1] obtain mv gen' where
    ag: "aggregateTuple tc (TupleType ts) canBeGuaranteed elements gen1 = Inr (mv, gen')" by blast
  from ve ag have v: "visit tc functionArgs d (TupleType ts) s = Inr (mv, parameters', gen')"
    by simp
  from visitTupleType_loadable_returned[OF assms(1) v] obtain cbg' es' g1' where
    ve': "visitElements tc functionArgs d ts (True, []) s = Inr ((cbg', es'), (parameters', g1'))"
    and len: "length es' = length ts"
    and body: "(if \<forall>e \<in> set es'. \<not> hasCleanup e
       then mv = forUnmanaged (TupleInst (getLoweredType tc (TupleType ts)) (map getValue es')) \<and>
            gen' = g1'\<lparr>B_emitted := B_emitted g1' @
                     [ValueInst (TupleInst (getLoweredType tc (TupleType ts)) (map getValue es'))]\<rparr> \<and>
            Cleanups gen' = Cleanups g1'
       else getValue mv = TupleInst (getLoweredType tc (TupleType ts))
                            (map (\<lambda>e. if hasCleanup e then getValue e else CopyValueInst (getValue e)) es') \<and>
            (\<forall>e \<in> set es'. \<not> hasCleanup e \<longrightarrow>
               ValueInst (CopyValueInst (getValue e)) \<in> set (B_emitted gen')) \<and>
            (\<forall>e \<in> set es'. \<forall>h. getCleanup e = Some h \<longrightarrow>
               h < length (Cleanups g1') \<and>
               Cleanups g1' ! h = (DestroyValueCleanup (getValue e), Active) \<and>
               snd (Cleanups gen' ! h) = Dead) \<and>
            (\<exists>copies. drop (length (Cleanups g1')) (Cleanups gen')
                         = copies @ [(DestroyValueCleanup (getValue mv), Active)] \<and>
                      (\<forall>c \<in> set copies. snd c = Dead)) \<and>
            getCleanup mv = Some (length (Cleanups gen') - 1))"
    by blast
  from ve' assms(2) have same: "es' = elements" "g1' = gen1" by simp_all
  show ?thesis
    by (intro exI[of _ mv] exI[of _ gen'] conjI v len[unfolded same] cbg body[unfolded same])
qed

text \<open>
  Scenario A: both elements guaranteed, the tuple is unmanaged and no cleanup is
  registered. Scenario B: the owned element is moved, the guaranteed one copied, one
  cleanup remains.
\<close>

theorem visitTupleType_loadable_witness:
  "isLoadable exampleTC scenarioB_type
   \<and> visitElements exampleTC True scenarioB_decl [NominalType ''C'', NominalType ''D''] (True, [])
         (scenarioA_descriptors, emptyGen)
       = Inr ((True, [ManagedValue scenarioB_C None False, ManagedValue scenarioB_D None False]),
              ([], emptyGen\<lparr>F_begin := [scenarioB_C, scenarioB_D]\<rparr>))
   \<and> visit exampleTC True scenarioB_decl scenarioB_type (scenarioA_descriptors, emptyGen)
       = Inr (ManagedValue (TupleInst (SILType scenarioB_type False) [scenarioB_C, scenarioB_D]) None False,
              [],
              emptyGen\<lparr>F_begin := [scenarioB_C, scenarioB_D],
                       B_emitted := [ValueInst (TupleInst (SILType scenarioB_type False)
                                                  [scenarioB_C, scenarioB_D])]\<rparr>)
   \<and> visitElements exampleTC True scenarioB_decl [NominalType ''C'', NominalType ''D''] (True, [])
         (scenarioB_descriptors, emptyGen)
       = Inr ((False, [ManagedValue scenarioB_C (Some 0) False, ManagedValue scenarioB_D None False]),
              ([], emptyGen\<lparr>F_begin := [scenarioB_C, scenarioB_D],
                           Cleanups := [(DestroyValueCleanup scenarioB_C, Active)]\<rparr>))
   \<and> visit exampleTC True scenarioB_decl scenarioB_type (scenarioB_descriptors, emptyGen)
       = Inr (ManagedValue scenarioB_tuple (Some 2) False, [],
              emptyGen\<lparr>F_begin := [scenarioB_C, scenarioB_D],
                       B_emitted := [ValueInst (CopyValueInst scenarioB_D), ValueInst scenarioB_tuple],
                       Cleanups := [(DestroyValueCleanup scenarioB_C, Dead),
                                    (DestroyValueCleanup (CopyValueInst scenarioB_D), Dead),
                                    (DestroyValueCleanup scenarioB_tuple, Active)]\<rparr>)"
proof -
  have h1: "isLoadable exampleTC (TupleType [NominalType ''C'', NominalType ''D''])"
    by (simp add: exampleTC_def)
  have veA: "visitElements exampleTC True scenarioB_decl [NominalType ''C'', NominalType ''D''] (True, [])
         (scenarioA_descriptors, emptyGen)
       = Inr ((True, [ManagedValue scenarioB_C None False, ManagedValue scenarioB_D None False]),
              ([], emptyGen\<lparr>F_begin := [scenarioB_C, scenarioB_D]\<rparr>))"
    by (simp add: helper_defs example_defs scenarioB_defs scenarioA_descriptors_def)
  have veB: "visitElements exampleTC True scenarioB_decl [NominalType ''C'', NominalType ''D''] (True, [])
         (scenarioB_descriptors, emptyGen)
       = Inr ((False, [ManagedValue scenarioB_C (Some 0) False, ManagedValue scenarioB_D None False]),
              ([], emptyGen\<lparr>F_begin := [scenarioB_C, scenarioB_D],
                           Cleanups := [(DestroyValueCleanup scenarioB_C, Active)]\<rparr>))"
    by (simp add: helper_defs example_defs scenarioB_defs)
  from visitTupleType_loadable[OF h1 veA]
  have A: "visit exampleTC True scenarioB_decl (TupleType [NominalType ''C'', NominalType ''D''])
             (scenarioA_descriptors, emptyGen)
       = Inr (ManagedValue (TupleInst (SILType scenarioB_type False) [scenarioB_C, scenarioB_D]) None False,
              [],
              emptyGen\<lparr>F_begin := [scenarioB_C, scenarioB_D],
                       B_emitted := [ValueInst (TupleInst (SILType scenarioB_type False)
                                                  [scenarioB_C, scenarioB_D])]\<rparr>)"
    by (auto simp: hasCleanup_def forUnmanaged_def example_defs scenarioB_type_def)
  have B: "visit exampleTC True scenarioB_decl (TupleType [NominalType ''C'', NominalType ''D''])
             (scenarioB_descriptors, emptyGen)
       = Inr (ManagedValue scenarioB_tuple (Some 2) False, [],
              emptyGen\<lparr>F_begin := [scenarioB_C, scenarioB_D],
                       B_emitted := [ValueInst (CopyValueInst scenarioB_D), ValueInst scenarioB_tuple],
                       Cleanups := [(DestroyValueCleanup scenarioB_C, Dead),
                                    (DestroyValueCleanup (CopyValueInst scenarioB_D), Dead),
                                    (DestroyValueCleanup scenarioB_tuple, Active)]\<rparr>)"
    by (simp add: helper_defs example_defs scenarioB_defs)
  from h1 veA veB A B show ?thesis
    by (simp add: scenarioB_type_def)
qed

text \<open>
  C3. When the materializer returns for a type, it has taken from the front of the
  descriptor queue exactly as many descriptors as the type's recursive tuple flattening
  has scalar leaves, whatever the nesting: the i-th leaf was checked against the i-th
  descriptor and became the i-th new block argument, and a tuple consumed the
  concatenation of what its elements consumed.
\<close>

theorem visit_consumes_one_descriptor_per_leaf:
  assumes "visit tc functionArgs d t (parameters, gen) = Inr (mv, parameters', gen')"
  shows "length (flattenTuple t) \<le> length parameters
       \<and> parameters' = drop (length (flattenTuple t)) parameters
       \<and> map (\<lambda>p. mapTypeIntoContext tc (getSILType p)) (take (length (flattenTuple t)) parameters)
           = map (getLoweredType tc) (flattenTuple t)
       \<and> F_begin gen' = F_begin gen @ argumentsFor tc d (length (F_begin gen)) (flattenTuple t)"
  using visit_consumes_aux(1)[OF assms] by simp

text \<open>A nested tuple of three leaves over a queue of four descriptors.\<close>

theorem visit_consumes_one_descriptor_per_leaf_witness:
  "(\<exists>mv gen'.
      visit exampleTC True pairDecl (getType pairDecl) (nestedDescriptors, emptyGen)
        = Inr (mv, [SILParameterInfo (SILType (NominalType ''E'') False) Direct_Guaranteed], gen')
      \<and> F_begin gen' = [SILArgument 0 (SILType (NominalType ''Int'') False) pairDecl,
                         SILArgument 1 (SILType (NominalType ''C'') False) pairDecl,
                         SILArgument 2 (SILType (NominalType ''D'') False) pairDecl])
   \<and> length (flattenTuple (getType pairDecl)) = 3
   \<and> drop 3 nestedDescriptors = [SILParameterInfo (SILType (NominalType ''E'') False) Direct_Guaranteed]"
proof -
  obtain mv gen' where run:
    "visit exampleTC True pairDecl (getType pairDecl) (nestedDescriptors, emptyGen)
       = Inr (mv, [SILParameterInfo (SILType (NominalType ''E'') False) Direct_Guaranteed], gen')"
    by (simp add: helper_defs example_defs pairDecl_def nestedDescriptors_def)
  from visit_consumes_one_descriptor_per_leaf[OF run]
  have "F_begin gen' = [SILArgument 0 (SILType (NominalType ''Int'') False) pairDecl,
                         SILArgument 1 (SILType (NominalType ''C'') False) pairDecl,
                         SILArgument 2 (SILType (NominalType ''D'') False) pairDecl]"
    by (simp add: example_defs pairDecl_def nestedDescriptors_def)
  with run show ?thesis
    by (auto simp: pairDecl_def nestedDescriptors_def)
qed

text \<open>
  C4. For a named parameter of in-out type whose argument is materialized as an address
  with no cleanup: if the pointee is the unsafe value buffer type, the name is bound to
  the incoming address and nothing else changes (no slot, no instruction, no cleanup).
  Otherwise a fresh local slot is allocated, initialized by a copy (not a take) from the
  incoming address, the name is bound to the slot, and a write-back cleanup is pushed
  on top of the slot's own; closing the scope then emits first the copy (an assignment,
  not a take) from the slot the name is bound to back to the incoming address, then the
  slot's destruction.
\<close>

theorem inout_binding_shadow_and_writeback:
  assumes "getType vd = InOutType objectType"
    and "makeArgument tc ty vd s = Inr (argrv, parameters, gen)"
    and "\<not> hasCleanup argrv"
  shows "makeArgumentIntoBinding tc ty vd s =
      (if objectType = BuiltinUnsafeValueBufferType
       then Inr (parameters, gen\<lparr>VarLocs := (VarLocs gen)(vd \<mapsto> VarLoc (getValue argrv) None)\<rparr>)
       else Inr (parameters,
                 gen\<lparr>allocations := Suc (allocations gen),
                     B_emitted := B_emitted gen @
                       [ValueInst (AllocBoxInst (allocations gen) (getLoweredType tc (getType vd))),
                        CopyAddrInst (getValue argrv)
                          (AllocBoxInst (allocations gen) (getLoweredType tc (getType vd))) False True],
                     Cleanups := Cleanups gen @
                       [(LocalVariableCleanup (AllocBoxInst (allocations gen) (getLoweredType tc (getType vd))), Active),
                        (CleanupWriteBackToInOut vd (getValue argrv), Active)],
                     VarLocs := (VarLocs gen)
                       (vd \<mapsto> VarLoc (AllocBoxInst (allocations gen) (getLoweredType tc (getType vd))) None)\<rparr>))
    \<and> (objectType \<noteq> BuiltinUnsafeValueBufferType \<longrightarrow>
         (\<forall>parameters' gen'. makeArgumentIntoBinding tc ty vd s = Inr (parameters', gen') \<longrightarrow>
            popScope (length (Cleanups gen)) gen'
              = Inr (gen'\<lparr>Cleanups := Cleanups gen,
                         B_emitted := B_emitted gen' @
                           [CopyAddrInst (AllocBoxInst (allocations gen) (getLoweredType tc (getType vd)))
                              (getValue argrv) False False,
                            DestroyValueInst (AllocBoxInst (allocations gen) (getLoweredType tc (getType vd)))]\<rparr>)))"
  using assms
  by (auto simp: makeArgumentIntoBinding_def getUnmanagedValue_def emitLocalVariableWithCleanup_def
        finishInitialization_def pushCleanup_def setCleanupState_def emitInst_def Let_def
        popScope_def nth_append)

text \<open>Scenario C: one shadow slot, one write-back cleanup, and the name bound to the shadow.\<close>

theorem inout_binding_shadow_and_writeback_witness:
  "getType inoutDecl = InOutType (NominalType ''Int'')
   \<and> makeArgument exampleTC (InOutType (NominalType ''Int'')) inoutDecl
        ([SILParameterInfo (SILType (NominalType ''Int'') True) Indirect_Inout], emptyGen)
       = Inr (ManagedValue inoutArg None True, [], emptyGen\<lparr>F_begin := [inoutArg]\<rparr>)
   \<and> \<not> hasCleanup (ManagedValue inoutArg None True)
   \<and> makeArgumentIntoBinding exampleTC (InOutType (NominalType ''Int'')) inoutDecl
        ([SILParameterInfo (SILType (NominalType ''Int'') True) Indirect_Inout], emptyGen)
       = Inr ([], emptyGen\<lparr>F_begin := [inoutArg], allocations := 1,
                          B_emitted := [ValueInst inoutSlot, CopyAddrInst inoutArg inoutSlot False True],
                          Cleanups := [(LocalVariableCleanup inoutSlot, Active),
                                       (CleanupWriteBackToInOut inoutDecl inoutArg, Active)],
                          VarLocs := (VarLocs emptyGen)(inoutDecl \<mapsto> VarLoc inoutSlot None)\<rparr>)"
proof -
  have h1: "getType inoutDecl = InOutType (NominalType ''Int'')" by (simp add: inoutDecl_def)
  have h2: "makeArgument exampleTC (InOutType (NominalType ''Int'')) inoutDecl
        ([SILParameterInfo (SILType (NominalType ''Int'') True) Indirect_Inout], emptyGen)
       = Inr (ManagedValue inoutArg None True, [], emptyGen\<lparr>F_begin := [inoutArg]\<rparr>)"
    by (simp add: helper_defs example_defs inoutDecl_def inoutArg_def)
  have h3: "\<not> hasCleanup (ManagedValue inoutArg None True)" by (simp add: hasCleanup_def)
  from inout_binding_shadow_and_writeback[OF h1 h2 h3] h1 h2 h3 show ?thesis
    by (simp add: example_defs inoutDecl_def inoutArg_def inoutSlot_def)
qed



text \<open>
  C6. For an unnamed parameter whose argument is materialized, binding it returns, and
  in the state it returns: the cleanup stack is exactly what it was before the
  argument was materialized (nothing is left on it to run later), every cleanup that
  was registered during the materialization and was still active has been emitted at
  the site, after the materialization's own instructions, the destroy of the
  materialized value among them when it carried a cleanup, and no name is bound.
\<close>

theorem discard_destroys_at_site:
  assumes "\<not> hasName PD"
    and "makeArgument tc ty PD (parameters, gen) = Inr (mv, parameters', gen1)"
  shows "\<exists>destroys.
      visitNamedPattern tc PD ty (parameters, gen)
        = Inr (parameters', gen1\<lparr>Cleanups := Cleanups gen, B_emitted := B_emitted gen1 @ destroys\<rparr>) \<and>
      (\<forall>x \<in> set (drop (length (Cleanups gen)) (Cleanups gen1)). snd x = Active \<longrightarrow>
         (\<exists>v. fst x = DestroyValueCleanup v \<and> DestroyValueInst v \<in> set destroys)) \<and>
      (hasCleanup mv \<longrightarrow> DestroyValueInst (getValue mv) \<in> set destroys) \<and>
      VarLocs gen1 = VarLocs gen"
proof -
  let ?L = "length (Cleanups gen)"
  note st = makeArgument_stack[OF assms(2)]
  let ?g = "gen1\<lparr>Cleanups := take ?L (Cleanups gen1)\<rparr>"
  have d: "\<forall>x \<in> set (rev (drop ?L (Cleanups gen1))). isDestroy (fst x)"
    using st(3) by simp
  from emitCleanups_destroy[OF d, of ?g] obtain new where
    e: "emitCleanups (rev (drop ?L (Cleanups gen1))) ?g = Inr (?g\<lparr>B_emitted := B_emitted ?g @ new\<rparr>)"
    and n: "\<forall>x \<in> set (rev (drop ?L (Cleanups gen1))). snd x = Active \<longrightarrow>
              (\<exists>v. fst x = DestroyValueCleanup v \<and> DestroyValueInst v \<in> set new)"
    by blast
  from e st(1) have p: "popScope ?L gen1 = Inr (gen1\<lparr>Cleanups := Cleanups gen, B_emitted := B_emitted gen1 @ new\<rparr>)"
    by (simp add: popScope_def)
  have 1: "visitNamedPattern tc PD ty (parameters, gen)
        = Inr (parameters', gen1\<lparr>Cleanups := Cleanups gen, B_emitted := B_emitted gen1 @ new\<rparr>)"
    using assms p by (simp add: visitNamedPattern_def)
  have 2: "\<forall>x \<in> set (drop ?L (Cleanups gen1)). snd x = Active \<longrightarrow>
         (\<exists>v. fst x = DestroyValueCleanup v \<and> DestroyValueInst v \<in> set new)"
    using n by simp
  have 3: "hasCleanup mv \<longrightarrow> DestroyValueInst (getValue mv) \<in> set new"
  proof
    assume "hasCleanup mv"
    then obtain h where h: "getCleanup mv = Some h" by (auto simp: hasCleanup_def)
    with st(4) have hb: "?L \<le> h" "h < length (Cleanups gen1)"
      and he: "Cleanups gen1 ! h = (DestroyValueCleanup (getValue mv), Active)"
      by (simp_all add: ownsCleanup_def)
    from hb have "drop ?L (Cleanups gen1) ! (h - ?L) = Cleanups gen1 ! h"
      by simp
    moreover from hb have "h - ?L < length (drop ?L (Cleanups gen1))" by simp
    ultimately have "Cleanups gen1 ! h \<in> set (drop ?L (Cleanups gen1))"
      by (metis nth_mem)
    with 2 he show "DestroyValueInst (getValue mv) \<in> set new" by fastforce
  qed
  from 1 2 3 st(5) show ?thesis by blast
qed

text \<open>An unnamed owned parameter: its release is emitted at once and the stack is empty again.\<close>

theorem discard_destroys_at_site_witness:
  "\<not> hasName discardDecl
   \<and> makeArgument exampleTC (NominalType ''C'') discardDecl
        ([SILParameterInfo (SILType (NominalType ''C'') False) Direct_Owned], emptyGen)
       = Inr (ManagedValue discardArg (Some 0) False, [],
              emptyGen\<lparr>F_begin := [discardArg], Cleanups := [(DestroyValueCleanup discardArg, Active)]\<rparr>)
   \<and> visitNamedPattern exampleTC discardDecl (NominalType ''C'')
        ([SILParameterInfo (SILType (NominalType ''C'') False) Direct_Owned], emptyGen)
       = Inr ([], emptyGen\<lparr>F_begin := [discardArg], B_emitted := [DestroyValueInst discardArg]\<rparr>)"
proof -
  have h1: "\<not> hasName discardDecl" by (simp add: hasName_def discardDecl_def)
  have h2: "makeArgument exampleTC (NominalType ''C'') discardDecl
        ([SILParameterInfo (SILType (NominalType ''C'') False) Direct_Owned], emptyGen)
       = Inr (ManagedValue discardArg (Some 0) False, [],
              emptyGen\<lparr>F_begin := [discardArg], Cleanups := [(DestroyValueCleanup discardArg, Active)]\<rparr>)"
    by (simp add: helper_defs example_defs discardDecl_def discardArg_def)
  from discard_destroys_at_site[OF h1 h2] obtain destroys where
    "visitNamedPattern exampleTC discardDecl (NominalType ''C'')
        ([SILParameterInfo (SILType (NominalType ''C'') False) Direct_Owned], emptyGen)
       = Inr ([], emptyGen\<lparr>F_begin := [discardArg], Cleanups := [(DestroyValueCleanup discardArg, Active)]\<rparr>
                  \<lparr>Cleanups := Cleanups emptyGen,
                   B_emitted := B_emitted (emptyGen\<lparr>F_begin := [discardArg], Cleanups := [(DestroyValueCleanup discardArg, Active)]\<rparr>) @ destroys\<rparr>)"
    by blast
  moreover have "visitNamedPattern exampleTC discardDecl (NominalType ''C'')
        ([SILParameterInfo (SILType (NominalType ''C'') False) Direct_Owned], emptyGen)
       = Inr ([], emptyGen\<lparr>F_begin := [discardArg], B_emitted := [DestroyValueInst discardArg]\<rparr>)"
    by (simp add: visitNamedPattern_def popScope_def helper_defs example_defs discardDecl_def
          discardArg_def hasName_def)
  ultimately show ?thesis using h1 h2 by simp
qed

text \<open>
  C7. For a named parameter whose type is not in-out and whose argument is
  materialized: if the declaration is a \<open>let\<close>, the name is bound to the materialized
  value itself, only a debug instruction is emitted (no copy, no slot) and the cleanup
  stack is untouched, so a cleanup attached to the value stays active. If it is
  mutable, a fresh local slot is allocated and the name bound to it; a value that
  carries a cleanup is moved into the slot and that cleanup is dead afterwards, a value
  that carries none is copied into the slot.
\<close>

theorem named_binding_let_or_var:
  assumes "\<forall>objectType. getType vd \<noteq> InOutType objectType"
    and "makeArgument tc ty vd (parameters0, gen0) = Inr (argrv, parameters, gen)"
  shows "makeArgumentIntoBinding tc ty vd (parameters0, gen0) =
      (if isLet vd
       then Inr (parameters,
                 gen\<lparr>VarLocs := (VarLocs gen)(vd \<mapsto> VarLoc (getValue argrv) None),
                     B_emitted := B_emitted gen @
                       [if isAddress (valueType (getValue argrv))
                        then DebugValueAddrInst (getValue argrv)
                        else DebugValueInst (getValue argrv)]\<rparr>)
       else
         (case getCleanup argrv of
            Some h \<Rightarrow>
              Inr (parameters,
                   gen\<lparr>allocations := Suc (allocations gen),
                       B_emitted := B_emitted gen @
                         [ValueInst (AllocBoxInst (allocations gen) (getLoweredType tc (getType vd))),
                          MoveIntoInst (getValue argrv)
                            (AllocBoxInst (allocations gen) (getLoweredType tc (getType vd)))],
                       Cleanups := (Cleanups gen)[h := (DestroyValueCleanup (getValue argrv), Dead)] @
                         [(LocalVariableCleanup (AllocBoxInst (allocations gen) (getLoweredType tc (getType vd))), Active)],
                       VarLocs := (VarLocs gen)
                         (vd \<mapsto> VarLoc (AllocBoxInst (allocations gen) (getLoweredType tc (getType vd))) None)\<rparr>)
          | None \<Rightarrow>
              Inr (parameters,
                   gen\<lparr>allocations := Suc (allocations gen),
                       B_emitted := B_emitted gen @
                         [ValueInst (AllocBoxInst (allocations gen) (getLoweredType tc (getType vd))),
                          CopyIntoInst (getValue argrv)
                            (AllocBoxInst (allocations gen) (getLoweredType tc (getType vd)))],
                       Cleanups := Cleanups gen @
                         [(LocalVariableCleanup (AllocBoxInst (allocations gen) (getLoweredType tc (getType vd))), Active)],
                       VarLocs := (VarLocs gen)
                         (vd \<mapsto> VarLoc (AllocBoxInst (allocations gen) (getLoweredType tc (getType vd))) None)\<rparr>)))
    \<and> (\<forall>h. getCleanup argrv = Some h \<longrightarrow>
          h < length (Cleanups gen) \<and> Cleanups gen ! h = (DestroyValueCleanup (getValue argrv), Active))"
proof -
  note st = makeArgument_stack[OF assms(2)]
  have own: "\<forall>h. getCleanup argrv = Some h \<longrightarrow>
          h < length (Cleanups gen) \<and> Cleanups gen ! h = (DestroyValueCleanup (getValue argrv), Active)"
    using st(4) by (auto simp: ownsCleanup_def split: option.splits)
  have eq: "makeArgumentIntoBinding tc ty vd (parameters0, gen0) =
      (if isLet vd
       then
         (let gen1 = gen\<lparr>VarLocs := (VarLocs gen)(vd \<mapsto> VarLoc (getValue argrv) None)\<rparr>
          in if isAddress (valueType (getValue argrv))
             then Inr (parameters, emitInst (DebugValueAddrInst (getValue argrv)) gen1)
             else Inr (parameters, emitInst (DebugValueInst (getValue argrv)) gen1))
       else
         (case emitLocalVariableWithCleanup tc vd gen of
            (initVar, gen1) \<Rightarrow>
              if hasCleanup argrv
              then (case forwardInto argrv (getAddress initVar) gen1 of
                      Inl e \<Rightarrow> Inl e
                    | Inr gen2 \<Rightarrow> Inr (parameters, finishInitialization vd initVar gen2))
              else Inr (parameters,
                        finishInitialization vd initVar
                          (copyInto argrv (getAddress initVar) gen1))))"
    using assms by (cases "getType vd") (simp_all add: makeArgumentIntoBinding_def)
  show ?thesis
  proof (cases "isLet vd")
    case True
    with own show ?thesis unfolding eq
      by (simp add: emitInst_def Let_def)
  next
    case False
    show ?thesis
    proof (cases "getCleanup argrv")
      case None
      with False own show ?thesis unfolding eq
        by (simp add: emitLocalVariableWithCleanup_def hasCleanup_def
              copyInto_def finishInitialization_def pushCleanup_def setCleanupState_def
              emitInst_def Let_def)
    next
      case (Some h)
      with own have h: "h < length (Cleanups gen)"
        and e: "Cleanups gen ! h = (DestroyValueCleanup (getValue argrv), Active)" by simp_all
      with Some False own show ?thesis unfolding eq
        by (simp add: emitLocalVariableWithCleanup_def hasCleanup_def
              forwardInto_def forward_def finishInitialization_def pushCleanup_def
              setCleanupState_def emitInst_def Let_def nth_append list_update_append)
    qed
  qed
qed

text \<open>A mutable parameter passed owned: the value is moved into the slot, its cleanup is dead.\<close>

theorem named_binding_let_or_var_witness:
  "(\<forall>objectType. getType varDecl \<noteq> InOutType objectType)
   \<and> makeArgument exampleTC (NominalType ''C'') varDecl
        ([SILParameterInfo (SILType (NominalType ''C'') False) Direct_Owned], emptyGen)
       = Inr (ManagedValue varArg (Some 0) False, [],
              emptyGen\<lparr>F_begin := [varArg], Cleanups := [(DestroyValueCleanup varArg, Active)]\<rparr>)
   \<and> makeArgumentIntoBinding exampleTC (NominalType ''C'') varDecl
        ([SILParameterInfo (SILType (NominalType ''C'') False) Direct_Owned], emptyGen)
       = Inr ([], emptyGen\<lparr>F_begin := [varArg], allocations := 1,
                          B_emitted := [ValueInst varSlot, MoveIntoInst varArg varSlot],
                          Cleanups := [(DestroyValueCleanup varArg, Dead),
                                       (LocalVariableCleanup varSlot, Active)],
                          VarLocs := (VarLocs emptyGen)(varDecl \<mapsto> VarLoc varSlot None)\<rparr>)"
proof -
  have h1: "\<forall>objectType. getType varDecl \<noteq> InOutType objectType" by (simp add: varDecl_def)
  have h2: "makeArgument exampleTC (NominalType ''C'') varDecl
        ([SILParameterInfo (SILType (NominalType ''C'') False) Direct_Owned], emptyGen)
       = Inr (ManagedValue varArg (Some 0) False, [],
              emptyGen\<lparr>F_begin := [varArg], Cleanups := [(DestroyValueCleanup varArg, Active)]\<rparr>)"
    by (simp add: helper_defs example_defs varDecl_def varArg_def)
  from named_binding_let_or_var[OF h1 h2] h1 h2 show ?thesis
    by (simp add: example_defs varDecl_def varArg_def varSlot_def)
qed

text \<open>
  C8. For a variable captured by value whose lowered type has the shape of a value
  \<open>v\<close> (a tuple nested to any depth, or a scalar): the capture adds one block argument
  per scalar leaf of the lowered type, and when those arguments hold the leaves of
  \<open>v\<close> in order, reading back the location the name is bound to gives \<open>v\<close> again.
  Exactly one cleanup is registered, the destroy cleanup of the bound location, and
  none when the type is trivial. If the variable is settable, the bound location is a
  fresh temporary and the reconstituted value is stored into it; otherwise it is the
  reconstituted value itself.
\<close>

theorem constant_capture_roundtrip:
  assumes "getDeclCaptureKind tc VD = CaptureConstant"
    and "hasShape (getSwiftRValueType (getLoweredType tc (getType VD))) v"
    and "length env = length (F_begin gen)"
  shows "\<exists>loc.
      VarLocs (emitCaptureArguments tc VD gen) VD = Some (VarLoc loc None)
      \<and> readBack (env @ flattenValue v) (B_emitted (emitCaptureArguments tc VD gen)) loc = Some v
      \<and> F_begin (emitCaptureArguments tc VD gen) =
          F_begin gen @ captureArguments (isAddress (getLoweredType tc (getType VD))) VD (length (F_begin gen))
                          (flattenTuple (getSwiftRValueType (getLoweredType tc (getType VD))))
      \<and> Cleanups (emitCaptureArguments tc VD gen) =
          Cleanups gen @ (if isTrivial tc (getType VD) then [] else [(DestroyValueCleanup loc, Active)])
      \<and> (if isSettable VD
          then loc = AllocStackInst (allocations gen) (getLoweredType tc (getType VD)) \<and>
               (\<exists>val0 insts. B_emitted (emitCaptureArguments tc VD gen) = insts @ [ValueInst loc, StoreInst val0 loc] \<and>
                             evalValue (env @ flattenValue v) val0 = Some v)
          else loc = fst (emitReconstitutedConstantCaptureArguments (getLoweredType tc (getType VD)) VD gen))"
proof -
  let ?ty = "getLoweredType tc (getType VD)"
  obtain val0 g1 where e: "emitReconstitutedConstantCaptureArguments ?ty VD gen = (val0, g1)"
    by (cases "emitReconstitutedConstantCaptureArguments ?ty VD gen")
  note fr = emitReconstituted_frame(1)[OF e]
  from emitReconstituted_denotes(1)[OF e assms(2,3), of "[]"]
  have den: "evalValue (env @ flattenValue v) val0 = Some v" by simp
  show ?thesis
  proof (cases "isSettable VD")
    case True
    let ?loc = "AllocStackInst (allocations gen) ?ty"
    have b: "B_emitted (emitCaptureArguments tc VD gen) = (B_emitted g1 @ [ValueInst ?loc]) @ [StoreInst val0 ?loc]"
      using assms(1) e True fr
      by (simp add: emitCaptureArguments_def emitTemporaryAllocation_def enterDestroyCleanup_def
            pushCleanup_def emitInst_def Let_def)
    have rb: "readBack (env @ flattenValue v) (B_emitted (emitCaptureArguments tc VD gen)) ?loc = Some v"
      unfolding b using den by (simp del: append_assoc)
    have rest: "VarLocs (emitCaptureArguments tc VD gen) VD = Some (VarLoc ?loc None)
      \<and> F_begin (emitCaptureArguments tc VD gen) =
          F_begin gen @ captureArguments (isAddress ?ty) VD (length (F_begin gen)) (flattenTuple (getSwiftRValueType ?ty))
      \<and> Cleanups (emitCaptureArguments tc VD gen) =
          Cleanups gen @ (if isTrivial tc (getType VD) then [] else [(DestroyValueCleanup ?loc, Active)])"
      using assms(1) e True fr
      by (simp add: emitCaptureArguments_def emitTemporaryAllocation_def enterDestroyCleanup_def
            pushCleanup_def emitInst_def Let_def)
    from b have "\<exists>val0' insts. B_emitted (emitCaptureArguments tc VD gen) = insts @ [ValueInst ?loc, StoreInst val0' ?loc] \<and>
                             evalValue (env @ flattenValue v) val0' = Some v"
      using den by (intro exI[of _ val0] exI[of _ "B_emitted g1"]) simp
    with True rb rest show ?thesis by (intro exI[of _ ?loc]) simp
  next
    case False
    have rest: "VarLocs (emitCaptureArguments tc VD gen) VD = Some (VarLoc val0 None)
      \<and> F_begin (emitCaptureArguments tc VD gen) =
          F_begin gen @ captureArguments (isAddress ?ty) VD (length (F_begin gen)) (flattenTuple (getSwiftRValueType ?ty))
      \<and> Cleanups (emitCaptureArguments tc VD gen) =
          Cleanups gen @ (if isTrivial tc (getType VD) then [] else [(DestroyValueCleanup val0, Active)])"
      using assms(1) e False fr
      by (simp add: emitCaptureArguments_def enterDestroyCleanup_def pushCleanup_def Let_def)
    from readBack_evalValue[OF den]
    have rb: "readBack (env @ flattenValue v) (B_emitted (emitCaptureArguments tc VD gen)) val0 = Some v" .
    from False rb rest e show ?thesis by (intro exI[of _ val0]) simp
  qed
qed

text \<open>A settable captured pair: two arguments, one temporary, one cleanup, and the pair read back.\<close>

theorem constant_capture_roundtrip_witness:
  "getDeclCaptureKind exampleTC captureDecl = CaptureConstant
   \<and> hasShape (getSwiftRValueType (getLoweredType exampleTC (getType captureDecl)))
        (Aggregate [Scalar 11, Scalar 22])
   \<and> emitCaptureArguments exampleTC captureDecl emptyGen
       = emptyGen\<lparr>F_begin := [SILArgument 0 (SILType (NominalType ''C'') False) captureDecl,
                               SILArgument 1 (SILType (NominalType ''Int'') False) captureDecl],
                   B_emitted := [ValueInst captureTuple, ValueInst captureTemp,
                                 StoreInst captureTuple captureTemp],
                   Cleanups := [(DestroyValueCleanup captureTemp, Active)],
                   VarLocs := (VarLocs emptyGen)(captureDecl \<mapsto> VarLoc captureTemp None),
                   allocations := 1\<rparr>
   \<and> readBack (flattenValue (Aggregate [Scalar 11, Scalar 22]))
        (B_emitted (emitCaptureArguments exampleTC captureDecl emptyGen)) captureTemp
       = Some (Aggregate [Scalar 11, Scalar 22])"
proof -
  have h1: "getDeclCaptureKind exampleTC captureDecl = CaptureConstant"
    by (simp add: exampleTC_def)
  have h2: "hasShape (getSwiftRValueType (getLoweredType exampleTC (getType captureDecl)))
        (Aggregate [Scalar 11, Scalar 22])"
    by (simp add: exampleTC_def captureDecl_def)
  have h3: "length ([] :: RValue list) = length (F_begin emptyGen)"
    by (simp add: emptyGen_def)
  have run: "emitCaptureArguments exampleTC captureDecl emptyGen
       = emptyGen\<lparr>F_begin := [SILArgument 0 (SILType (NominalType ''C'') False) captureDecl,
                               SILArgument 1 (SILType (NominalType ''Int'') False) captureDecl],
                   B_emitted := [ValueInst captureTuple, ValueInst captureTemp,
                                 StoreInst captureTuple captureTemp],
                   Cleanups := [(DestroyValueCleanup captureTemp, Active)],
                   VarLocs := (VarLocs emptyGen)(captureDecl \<mapsto> VarLoc captureTemp None),
                   allocations := 1\<rparr>"
    by (simp add: emitCaptureArguments_def helper_defs example_defs captureDecl_def
          captureTuple_def captureTemp_def)
  from constant_capture_roundtrip[OF h1 h2 h3] obtain loc where
    l: "VarLocs (emitCaptureArguments exampleTC captureDecl emptyGen) captureDecl = Some (VarLoc loc None)"
    and r: "readBack ([] @ flattenValue (Aggregate [Scalar 11, Scalar 22]))
              (B_emitted (emitCaptureArguments exampleTC captureDecl emptyGen)) loc
            = Some (Aggregate [Scalar 11, Scalar 22])"
    by blast
  from l run have "loc = captureTemp" by simp
  with r h1 h2 run show ?thesis by simp
qed

text \<open>
  C9 (as amended). When the forwarding visitor returns for a pattern, it has looked
  through wrappers and walked tuple elements left to right, and has appended to the
  output list one fresh block argument per scalar leaf of the type it reads at each
  named pattern, tuples destructured to any depth and never aggregated again, in pattern
  order; these arguments are also the only change to the state: no instruction is
  emitted, no cleanup registered, no name bound. The type it reads is the named
  pattern's own, except for a typed pattern directly around a name, where it is the
  typed pattern's. The walk mirrors the name-binding visitor's (same leaves, same order)
  when every such typed pattern has the type of the name it wraps.
\<close>

theorem forwarding_leaves_flat_and_frame:
  assumes "bindParametersForForwarding tc pattern parameters gen = Inr (parameters', gen')"
  shows "parameters' = parameters @ leafArguments tc (length (F_begin gen)) (forwardLeaves pattern)
       \<and> gen' = gen\<lparr>F_begin := F_begin gen @ leafArguments tc (length (F_begin gen)) (forwardLeaves pattern)\<rparr>
       \<and> B_emitted gen' = B_emitted gen
       \<and> Cleanups gen' = Cleanups gen
       \<and> VarLocs gen' = VarLocs gen
       \<and> (typedConsistent pattern \<longrightarrow> forwardLeaves pattern = patternLeaves pattern)"
  using forwardVisit_effect(1)[OF assms[unfolded bindParametersForForwarding_def]]
  by (simp add: forwardLeaves_consistent)

text \<open>Two parameters, the first a nested tuple: four flat arguments, nothing else.\<close>

theorem forwarding_leaves_flat_and_frame_witness:
  "bindParametersForForwarding exampleTC forwardExample [] emptyGen
     = Inr ([SILArgument 0 (SILType (NominalType ''C'') False) pairDecl,
             SILArgument 1 (SILType (NominalType ''D'') False) pairDecl,
             SILArgument 2 (SILType (NominalType ''Int'') False) pairDecl,
             SILArgument 3 (SILType (NominalType ''C'') False) xDecl],
            emptyGen\<lparr>F_begin := [SILArgument 0 (SILType (NominalType ''C'') False) pairDecl,
                                  SILArgument 1 (SILType (NominalType ''D'') False) pairDecl,
                                  SILArgument 2 (SILType (NominalType ''Int'') False) pairDecl,
                                  SILArgument 3 (SILType (NominalType ''C'') False) xDecl]\<rparr>)
   \<and> typedConsistent forwardExample
   \<and> forwardLeaves forwardExample = patternLeaves forwardExample
   \<and> Cleanups (snd (projr (bindParametersForForwarding exampleTC forwardExample [] emptyGen))) = []"
proof -
  have run: "bindParametersForForwarding exampleTC forwardExample [] emptyGen
     = Inr ([SILArgument 0 (SILType (NominalType ''C'') False) pairDecl,
             SILArgument 1 (SILType (NominalType ''D'') False) pairDecl,
             SILArgument 2 (SILType (NominalType ''Int'') False) pairDecl,
             SILArgument 3 (SILType (NominalType ''C'') False) xDecl],
            emptyGen\<lparr>F_begin := [SILArgument 0 (SILType (NominalType ''C'') False) pairDecl,
                                  SILArgument 1 (SILType (NominalType ''D'') False) pairDecl,
                                  SILArgument 2 (SILType (NominalType ''Int'') False) pairDecl,
                                  SILArgument 3 (SILType (NominalType ''C'') False) xDecl]\<rparr>)"
    by (simp add: bindParametersForForwarding_def forwardExample_def newSILArgument_def Let_def
          example_defs numeral_2_eq_2 numeral_3_eq_3)
  have tcn: "typedConsistent forwardExample" by (simp add: forwardExample_def)
  from forwarding_leaves_flat_and_frame[OF run] run tcn show ?thesis
    by (simp add: emptyGen_def)
qed

text \<open>
  C9 as stated fails: for a typed pattern of type \<open>(C, D)\<close> directly around a name of
  type \<open>C\<close>, the forwarding visitor makes two arguments where the name-binding visitor
  makes one, so the two walks do not have the same leaves.
\<close>

theorem forwarding_walk_differs_on_typed_name:
  "bindParametersForForwarding exampleTC forwardMismatch [] emptyGen
     = Inr ([SILArgument 0 (SILType (NominalType ''C'') False) xDecl,
             SILArgument 1 (SILType (NominalType ''D'') False) xDecl],
            emptyGen\<lparr>F_begin := [SILArgument 0 (SILType (NominalType ''C'') False) xDecl,
                                  SILArgument 1 (SILType (NominalType ''D'') False) xDecl]\<rparr>)
   \<and> visitPattern exampleTC forwardMismatch
       ([SILParameterInfo (SILType (NominalType ''C'') False) Direct_Owned], emptyGen)
     = Inr ([],
            emptyGen\<lparr>F_begin := [SILArgument 0 (SILType (NominalType ''C'') False) xDecl],
                     B_emitted := [DebugValueInst (SILArgument 0 (SILType (NominalType ''C'') False) xDecl)],
                     Cleanups := [(DestroyValueCleanup (SILArgument 0 (SILType (NominalType ''C'') False) xDecl),
                                   Active)],
                     VarLocs := (VarLocs emptyGen)
                       (xDecl \<mapsto> VarLoc (SILArgument 0 (SILType (NominalType ''C'') False) xDecl) None)\<rparr>)
   \<and> forwardLeaves forwardMismatch \<noteq> patternLeaves forwardMismatch"
  by (simp add: bindParametersForForwarding_def forwardMismatch_def visitNamedPattern_def
        makeArgumentIntoBinding_def hasName_def helper_defs example_defs xDecl_def)

text \<open>
  C10. The name-binding visitor drops a leading indirect-result descriptor when it is
  constructed, before it materializes any argument. Hence, when the lowered parameter
  list is well formed (the out convention at most on its first descriptor), the
  visitor's queue holds no out descriptor, and emitting the prologue never ends in the
  resolver's out-parameter failure.
\<close>

theorem out_parameter_never_reaches_resolver:
  assumes "\<forall>p \<in> set (drop 1 (F_parameters gen)). getConvention p \<noteq> Indirect_Out"
  shows "(\<forall>p rest. F_parameters gen = p # rest \<and> isIndirectResult p \<longrightarrow> ArgumentInitVisitor gen = rest)
       \<and> (\<forall>p \<in> set (ArgumentInitVisitor gen). getConvention p \<noteq> Indirect_Out)
       \<and> emitProlog tc fresh paramPatterns resultType gen \<noteq> Inl UnreachableOutParameter
       \<and> emitPrologClosure tc fresh captures paramPatterns resultType gen \<noteq> Inl UnreachableOutParameter"
proof -
  have a: "\<forall>p rest. F_parameters gen = p # rest \<and> isIndirectResult p \<longrightarrow> ArgumentInitVisitor gen = rest"
    by (auto simp: ArgumentInitVisitor_def)
  note b = ArgumentInitVisitor_no_out[OF assms]
  let ?g1 = "emitIndirectReturn tc fresh resultType gen"
  from b have "\<forall>p \<in> set (fst (ArgumentInitVisitor gen, ?g1)). getConvention p \<noteq> Indirect_Out"
    by simp
  from visitPattern_no_out(2)[OF this]
  have v: "visitPatterns tc (rev paramPatterns) (ArgumentInitVisitor gen, ?g1) \<noteq> Inl UnreachableOutParameter" .
  then have c: "emitProlog tc fresh paramPatterns resultType gen \<noteq> Inl UnreachableOutParameter"
    by (auto simp: emitProlog_def Let_def split: sum.splits)
  then have d: "emitPrologClosure tc fresh captures paramPatterns resultType gen \<noteq> Inl UnreachableOutParameter"
    by (auto simp: emitPrologClosure_def split: sum.splits)
  from a b c d show ?thesis by blast
qed

text \<open>Scenario D again: the out descriptor is dropped and the prologue is emitted.\<close>

theorem out_parameter_never_reaches_resolver_witness:
  "drop 1 (F_parameters scenarioD_gen)
     = [SILParameterInfo (SILType (NominalType ''D'') False) Direct_Guaranteed,
        SILParameterInfo (SILType (NominalType ''C'') False) Direct_Owned]
   \<and> ArgumentInitVisitor scenarioD_gen = drop 1 (F_parameters scenarioD_gen)
   \<and> emitProlog exampleTC 100 scenarioD_patterns (NominalType ''Existential'') scenarioD_gen
       \<noteq> Inl UnreachableOutParameter"
proof -
  have h: "\<forall>p \<in> set (drop 1 (F_parameters scenarioD_gen)). getConvention p \<noteq> Indirect_Out"
    by (simp add: scenarioD_defs example_defs)
  have "isIndirectResult (SILParameterInfo (SILType (NominalType ''Existential'') True) Indirect_Out)"
    by (simp add: isIndirectResult_def)
  with out_parameter_never_reaches_resolver[OF h, of exampleTC 100 scenarioD_patterns "NominalType ''Existential''"]
  show ?thesis
    by (simp add: scenarioD_defs example_defs)
qed

end
